theory Spec2Isabelle
  imports Main "HOL-Library.Word"
begin

section \<open>Data model of the subscription engine\<close>

text \<open>
  The embedding follows \<^verbatim>\<open>src/server/internal_subscription.cpp\<close> and
  \<^verbatim>\<open>src/server/subscription_service_internal.cpp\<close>. The structures those files use
  are declared in headers; only the fields the two files touch are modelled. Record fields
  keep the source's names; where two structures share a field name the field carries a short
  prefix of its structure.
\<close>

type_synonym u8 = "8 word"
type_synonym u16 = "16 word"
type_synonym u32 = "32 word"

text \<open>Node identifiers are keys of ordered maps; only their equality and order are used.\<close>
type_synonym NodeID = nat
type_synonym IntegerID = u32
type_synonym DateTime = nat
type_synonym DataValue = int

datatype AttributeID = NODE_ID | VALUE | EVENT_NOTIFIER | OTHER_ATTRIBUTE nat

datatype StatusCode =
    Good
  | BadSubscriptionIdInvalid
  | BadMonitoredItemIdInvalid
  | BadNodeAttributesInvalid
  | BadMessageNotAvailable

datatype MonitoringMode = Disabled | Sampling | Reporting

datatype QualifiedName = QualifiedName string u16

record ByteString =
  bs_Data :: "u8 list"

datatype Variant =
    VNull
  | VByteString ByteString
  | VNodeID NodeID
  | VString string
  | VUInt16 u16
  | VDateTime DateTime
  | VOther int

text \<open>
  An event. \<open>GetValueAttr\<close> and \<open>GetValuePath\<close> stand for the two overloads of
  \<^verbatim>\<open>Event::GetValue\<close>, whose bodies are outside these files.
\<close>
record Event =
  EventId :: ByteString
  EventType :: NodeID
  SourceNode :: NodeID
  SourceName :: string
  ev_Message :: string
  Severity :: u16
  LocalTime :: DateTime
  ReceiveTime :: DateTime
  Time :: DateTime
  GetValueAttr :: "AttributeID \<Rightarrow> Variant"
  GetValuePath :: "QualifiedName list \<Rightarrow> Variant"

record SimpleAttributeOperand =
  sao_Attribute :: AttributeID
  BrowsePath :: "QualifiedName list"

record EventFilter =
  SelectClauses :: "SimpleAttributeOperand list"

record MonitoringFilter =
  flt_Event :: EventFilter

record MonitoringParameters =
  mp_ClientHandle :: u32
  QueueSize :: u32
  mp_Filter :: MonitoringFilter

record AttributeValueID =
  Node :: NodeID
  Attribute :: AttributeID

record MonitoredItemRequest =
  ItemToMonitor :: AttributeValueID
  req_Mode :: MonitoringMode
  req_Parameters :: MonitoringParameters

record CreateMonitoredItemsResult =
  Status :: StatusCode
  MonitoredItemID :: IntegerID
  RevisedSamplingInterval :: u32
  RevizedQueueSize :: u32
  res_Filter :: MonitoringFilter

record DataMonitoredItems =
  Parameters :: CreateMonitoredItemsResult
  Mode :: MonitoringMode
  ClientHandle :: u32
  CallbackHandle :: u32

text \<open>One element of a data-change notification (\<^verbatim>\<open>MonitoredItems\<close> in the source).\<close>
record MonitoredItems =
  mi_ClientHandle :: u32
  mi_Value :: DataValue

record EventFieldList =
  efl_ClientHandle :: u32
  EventFields :: "Variant list"

datatype NotificationData =
    DataChangeNotification "MonitoredItems list"
  | EventNotificationList "EventFieldList list"

record NotificationMessage =
  PublishTime :: DateTime
  SequenceID :: u32
  msg_Data :: "NotificationData list"

record PublishResult =
  SubscriptionID :: u32
  Message :: NotificationMessage
  Statuses :: "StatusCode list"
  MoreNotifications :: bool
  AvailableSequenceNumber :: "u32 list"

record SubscriptionAcknowledgement =
  ack_SubscriptionId :: u32
  SequenceNumber :: u32

record SubscriptionData =
  ID :: u32
  RevisedPublishingInterval :: u32
  RevisedLifetimeCount :: u32
  RevizedMaxKeepAliveCount :: u32

record ReadParameters =
  AttributesToRead :: "AttributeValueID list"

subsection \<open>Ordered maps\<close>

text \<open>
  A \<^verbatim>\<open>std::map\<close> is an association list kept in ascending key order, so that iterating
  it visits the entries as the source does. \<open>map_find\<close> is \<^verbatim>\<open>find\<close>, \<open>map_set\<close> is
  the assignment \<^verbatim>\<open>m[k] = v\<close>, \<open>map_erase\<close> is \<^verbatim>\<open>erase(k)\<close>.
\<close>

type_synonym ('k, 'v) stdmap = "('k \<times> 'v) list"

definition map_find :: "'k \<Rightarrow> ('k, 'v) stdmap \<Rightarrow> 'v option" where
  "map_find k m = map_of m k"

fun map_set :: "'k::linorder \<Rightarrow> 'v \<Rightarrow> ('k, 'v) stdmap \<Rightarrow> ('k, 'v) stdmap" where
  "map_set k v [] = [(k, v)]"
| "map_set k v ((k', v') # m) =
     (if k < k' then (k, v) # (k', v') # m
      else if k = k' then (k, v) # m
      else (k', v') # map_set k v m)"

definition map_erase :: "'k \<Rightarrow> ('k, 'v) stdmap \<Rightarrow> ('k, 'v) stdmap" where
  "map_erase k m = filter (\<lambda>p. fst p \<noteq> k) m"

subsection \<open>The address space\<close>

text \<open>
  The address space is an external collaborator with a state of its own. It is an object:
  a state \<open>as_state\<close> and the three operations the subscription calls. The callback handed to
  \<^verbatim>\<open>AddDataChangeCallback\<close> is the closure \<^verbatim>\<open>[this, id]\<close>; it is represented by the
  captured monitored-item id.
\<close>

record 'a AddressSpace =
  as_state :: 'a
  as_add :: "'a \<Rightarrow> NodeID \<Rightarrow> AttributeID \<Rightarrow> IntegerID \<Rightarrow> u32 \<times> 'a"
  as_delete :: "'a \<Rightarrow> u32 \<Rightarrow> 'a"
  as_read :: "'a \<Rightarrow> ReadParameters \<Rightarrow> DataValue list"

definition AddDataChangeCallback ::
  "NodeID \<Rightarrow> AttributeID \<Rightarrow> IntegerID \<Rightarrow> 'a AddressSpace \<Rightarrow> u32 \<times> 'a AddressSpace" where
  "AddDataChangeCallback node attr cb a =
     (case as_add a (as_state a) node attr cb of
        (handle, st) \<Rightarrow> (handle, a\<lparr>as_state := st\<rparr>))"

definition DeleteDataChangeCallback :: "u32 \<Rightarrow> 'a AddressSpace \<Rightarrow> 'a AddressSpace" where
  "DeleteDataChangeCallback handle a = a\<lparr>as_state := as_delete a (as_state a) handle\<rparr>"

definition Read :: "ReadParameters \<Rightarrow> 'a AddressSpace \<Rightarrow> DataValue list" where
  "Read params a = as_read a (as_state a) params"

section \<open>InternalSubscription\<close>

text \<open>
  The members of \<^verbatim>\<open>InternalSubscription\<close>. \<open>Callback\<close> records whether the
  \<^verbatim>\<open>std::function\<close> is non-empty; a call of it is returned by \<open>PublishResults\<close> as the
  value it would be called with. \<open>TimerPending\<close> is the one piece of timer state the code
  depends on: whether an \<^verbatim>\<open>async_wait\<close> handler is outstanding.
\<close>

record InternalSubscription =
  Data :: SubscriptionData
  CurrentSession :: NodeID
  Callback :: bool
  NotificationSequence :: u32
  KeepAliveCount :: u32
  Startup :: bool
  LastMonitoredItemID :: u32
  MonitoredItemsMap :: "(IntegerID, DataMonitoredItems) stdmap"
  MonitoredEvents :: "(NodeID, IntegerID) stdmap"
  NotAcknowledgedResults :: "PublishResult list"
  MonitoredItemsTriggered :: "MonitoredItems list"
  EventTriggered :: "EventFieldList list"
  LifeTimeCount :: u32
  TimerStopped :: bool
  TimerPending :: bool

text \<open>
  Modelled from the spec: the default member initialisers of the class are in
  \<^verbatim>\<open>internal_subscription.h\<close>, which is not among the sources. The spec gives
  \<open>notification_sequence\<close> "starts at 1", \<open>startup\<close> "forces first tick to emit",
  \<open>timer_stopped\<close> "latches terminal state"; the keep-alive counter starts at 0 and the
  containers empty. The spec does not give the first monitored-item id; the allocation
  counter starts at 0 here and no property below depends on it. The rest is the
  constructor's initialiser list, which ends by arming the timer.
\<close>
definition InternalSubscription_new ::
  "SubscriptionData \<Rightarrow> NodeID \<Rightarrow> bool \<Rightarrow> InternalSubscription" where
  "InternalSubscription_new data SessionAuthenticationToken callback =
     \<lparr> Data = data,
       CurrentSession = SessionAuthenticationToken,
       Callback = callback,
       NotificationSequence = 1,
       KeepAliveCount = 0,
       Startup = True,
       LastMonitoredItemID = 0,
       MonitoredItemsMap = [],
       MonitoredEvents = [],
       NotAcknowledgedResults = [],
       MonitoredItemsTriggered = [],
       EventTriggered = [],
       LifeTimeCount = RevisedLifetimeCount data,
       TimerStopped = False,
       TimerPending = True \<rparr>"

definition HasExpired :: "InternalSubscription \<Rightarrow> bool" where
  "HasExpired s = (KeepAliveCount s > LifeTimeCount s)"

definition HasPublishResult :: "InternalSubscription \<Rightarrow> bool \<times> InternalSubscription" where
  "HasPublishResult s =
     (if Startup s \<or> MonitoredItemsTriggered s \<noteq> [] \<or> EventTriggered s \<noteq> [] then (True, s)
      else if KeepAliveCount s > RevizedMaxKeepAliveCount (Data s) then (True, s)
      else (False, s\<lparr>KeepAliveCount := KeepAliveCount s + 1\<rparr>))"

text \<open>The loop of \<^verbatim>\<open>GetNotificationData\<close> copies the queue element by element.\<close>
definition GetNotificationData ::
  "InternalSubscription \<Rightarrow> NotificationData \<times> InternalSubscription" where
  "GetNotificationData s =
     (DataChangeNotification (foldl (\<lambda>notification monitoreditem. notification @ [monitoreditem])
          [] (MonitoredItemsTriggered s)),
      s\<lparr>MonitoredItemsTriggered := []\<rparr>)"

text \<open>
  A default-constructed \<^verbatim>\<open>PublishResult\<close>: every container empty. The scalar fields
  are all assigned by \<open>PopPublishResult\<close> before the result is used.
\<close>
definition PublishResult_new :: PublishResult where
  "PublishResult_new =
     \<lparr> SubscriptionID = 0,
       Message = \<lparr> PublishTime = 0, SequenceID = 0, msg_Data = [] \<rparr>,
       Statuses = [],
       MoreNotifications = False,
       AvailableSequenceNumber = [] \<rparr>"

definition push_Data :: "NotificationData \<Rightarrow> PublishResult \<Rightarrow> PublishResult" where
  "push_Data d r = r\<lparr>Message := (Message r)\<lparr>msg_Data := msg_Data (Message r) @ [d]\<rparr>,
                     Statuses := Statuses r @ [Good]\<rparr>"

text \<open>
  \<open>PopPublishResult\<close>, statement by statement. \<open>now\<close> is the value of
  \<^verbatim>\<open>CurrentDateTime()\<close>.
\<close>
definition PopPublishResult ::
  "DateTime \<Rightarrow> InternalSubscription \<Rightarrow> PublishResult list \<times> InternalSubscription" where
  "PopPublishResult now s0 =
     (let result0 = PublishResult_new\<lparr>SubscriptionID := ID (Data s0)\<rparr>;
          result1 = result0\<lparr>Message := (Message result0)\<lparr>PublishTime := now\<rparr>\<rparr>;
          (result2, s1) =
             (if MonitoredItemsTriggered s0 \<noteq> []
              then (case GetNotificationData s0 of (d, s) \<Rightarrow> (push_Data d result1, s))
              else (result1, s0));
          (result3, s2) =
             (if EventTriggered s1 \<noteq> []
              then (push_Data
                      (EventNotificationList (foldl (\<lambda>notif ef. notif @ [ef]) [] (EventTriggered s1)))
                      result2,
                    s1\<lparr>EventTriggered := []\<rparr>)
              else (result2, s1));
          s3 = s2\<lparr>KeepAliveCount := 0, Startup := False\<rparr>;
          result4 = result3\<lparr>Message := (Message result3)\<lparr>SequenceID := NotificationSequence s3\<rparr>\<rparr>;
          s4 = s3\<lparr>NotificationSequence := NotificationSequence s3 + 1\<rparr>;
          result5 = result4\<lparr>MoreNotifications := False\<rparr>;
          result6 = foldl (\<lambda>r res. r\<lparr>AvailableSequenceNumber :=
                                        AvailableSequenceNumber r @ [SequenceID (Message res)]\<rparr>)
                      result5 (NotAcknowledgedResults s4);
          s5 = s4\<lparr>NotAcknowledgedResults := NotAcknowledgedResults s4 @ [result6]\<rparr>
      in ([result6], s5))"

text \<open>\<^verbatim>\<open>std::list::remove_if\<close> walks the list once and unlinks each matching node.\<close>
fun remove_if :: "('a \<Rightarrow> bool) \<Rightarrow> 'a list \<Rightarrow> 'a list" where
  "remove_if p [] = []"
| "remove_if p (x # xs) = (if p x then remove_if p xs else x # remove_if p xs)"

definition NewAcknowlegment ::
  "SubscriptionAcknowledgement \<Rightarrow> InternalSubscription \<Rightarrow> InternalSubscription" where
  "NewAcknowlegment ack s =
     s\<lparr>NotAcknowledgedResults :=
         remove_if (\<lambda>res. SequenceNumber ack = SequenceID (Message res)) (NotAcknowledgedResults s)\<rparr>"

subsection \<open>Monitored items\<close>

text \<open>
  A default-constructed \<^verbatim>\<open>CreateMonitoredItemsResult\<close>. Its constructor is in a header;
  the fields \<open>CreateMonitoredItem\<close> does not assign on a path keep these values.
\<close>
definition CreateMonitoredItemsResult_new :: CreateMonitoredItemsResult where
  "CreateMonitoredItemsResult_new =
     \<lparr> Status = Good,
       MonitoredItemID = 0,
       RevisedSamplingInterval = 0,
       RevizedQueueSize = 0,
       res_Filter = \<lparr> flt_Event = \<lparr> SelectClauses = [] \<rparr> \<rparr> \<rparr>"

text \<open>
  \<open>TriggerDataChangeEvent\<close> reads \<^verbatim>\<open>vals[0]\<close> with no check. On an empty vector
  that read is out of bounds, which \<open>None\<close> stands for.
\<close>
definition TriggerDataChangeEvent ::
  "DataMonitoredItems \<Rightarrow> AttributeValueID \<Rightarrow> 'a AddressSpace \<Rightarrow> InternalSubscription
     \<Rightarrow> InternalSubscription option" where
  "TriggerDataChangeEvent monitoreditems attrval a s =
     (let params = \<lparr> AttributesToRead = [] @ [attrval] \<rparr>;
          vals = Read params a
      in case vals of
           [] \<Rightarrow> None
         | v # _ \<Rightarrow>
             Some (s\<lparr>MonitoredItemsTriggered := MonitoredItemsTriggered s @
                       [\<lparr> mi_ClientHandle = ClientHandle monitoreditems, mi_Value = v \<rparr>]\<rparr>))"

definition CreateMonitoredItem ::
  "MonitoredItemRequest \<Rightarrow> 'a AddressSpace \<Rightarrow> InternalSubscription
     \<Rightarrow> (CreateMonitoredItemsResult \<times> 'a AddressSpace \<times> InternalSubscription) option" where
  "CreateMonitoredItem request a s0 =
     (let s1 = s0\<lparr>LastMonitoredItemID := LastMonitoredItemID s0 + 1\<rparr>;
          result = CreateMonitoredItemsResult_new\<lparr>MonitoredItemID := LastMonitoredItemID s1\<rparr>;
          finish = (\<lambda>callbackHandle a' s.
             let result' = result\<lparr>Status := Good,
                                  RevisedSamplingInterval := RevisedPublishingInterval (Data s),
                                  RevizedQueueSize := QueueSize (req_Parameters request),
                                  res_Filter := mp_Filter (req_Parameters request)\<rparr>;
                 mdata = \<lparr> Parameters = result',
                           Mode = req_Mode request,
                           ClientHandle = mp_ClientHandle (req_Parameters request),
                           CallbackHandle = callbackHandle \<rparr>;
                 s' = s\<lparr>MonitoredItemsMap :=
                          map_set (MonitoredItemID result') mdata (MonitoredItemsMap s)\<rparr>
             in case TriggerDataChangeEvent mdata (ItemToMonitor request) a' s' of
                  None \<Rightarrow> None
                | Some s'' \<Rightarrow> Some (result', a', s''))
      in if Attribute (ItemToMonitor request) = EVENT_NOTIFIER
         then finish 0 a
                (s1\<lparr>MonitoredEvents :=
                      map_set (Node (ItemToMonitor request)) (MonitoredItemID result)
                        (MonitoredEvents s1)\<rparr>)
         else
           (case AddDataChangeCallback (Node (ItemToMonitor request))
                   (Attribute (ItemToMonitor request)) (MonitoredItemID result) a of
              (callbackHandle, a') \<Rightarrow>
                if callbackHandle = 0
                then Some (result\<lparr>Status := BadNodeAttributesInvalid\<rparr>, a',
                           s1\<lparr>LastMonitoredItemID := LastMonitoredItemID s1 - 1\<rparr>)
                else finish callbackHandle a' s1))"

text \<open>One round of the loop of \<open>DeleteMonitoredItemsIds\<close>.\<close>
definition delete_one ::
  "IntegerID \<Rightarrow> StatusCode list \<times> 'a AddressSpace \<times> InternalSubscription
     \<Rightarrow> StatusCode list \<times> 'a AddressSpace \<times> InternalSubscription" where
  "delete_one handle acc =
     (case acc of (results, a, s) \<Rightarrow>
        let s1 = (case find (\<lambda>pair. snd pair = handle) (MonitoredEvents s) of
                    None \<Rightarrow> s
                  | Some pair \<Rightarrow> s\<lparr>MonitoredEvents := map_erase (fst pair) (MonitoredEvents s)\<rparr>)
        in case map_find handle (MonitoredItemsMap s1) of
             None \<Rightarrow> (results @ [BadMonitoredItemIdInvalid], a, s1)
           | Some it \<Rightarrow>
               (results @ [Good],
                (if CallbackHandle it \<noteq> 0 then DeleteDataChangeCallback (CallbackHandle it) a else a),
                s1\<lparr>MonitoredItemsMap := map_erase handle (MonitoredItemsMap s1)\<rparr>))"

definition DeleteMonitoredItemsIds ::
  "IntegerID list \<Rightarrow> 'a AddressSpace \<Rightarrow> InternalSubscription
     \<Rightarrow> StatusCode list \<times> 'a AddressSpace \<times> InternalSubscription" where
  "DeleteMonitoredItemsIds monitoreditemsids a s =
     foldl (\<lambda>acc handle. delete_one handle acc) ([], a, s) monitoreditemsids"

definition DeleteAllMonitoredItems ::
  "'a AddressSpace \<Rightarrow> InternalSubscription \<Rightarrow> 'a AddressSpace \<times> InternalSubscription" where
  "DeleteAllMonitoredItems a s =
     snd (DeleteMonitoredItemsIds (map fst (MonitoredItemsMap s)) a s)"

definition DataChangeCallback ::
  "IntegerID \<Rightarrow> DataValue \<Rightarrow> InternalSubscription \<Rightarrow> InternalSubscription" where
  "DataChangeCallback m_id val s =
     (case map_find m_id (MonitoredItemsMap s) of
        None \<Rightarrow> s
      | Some it \<Rightarrow>
          s\<lparr>MonitoredItemsTriggered := MonitoredItemsTriggered s @
               [\<lparr> mi_ClientHandle = ClientHandle it, mi_Value = val \<rparr>]\<rparr>)"

subsection \<open>Events\<close>

text \<open>The body of the loop of \<open>GetEventFields\<close>: the value one select clause contributes.\<close>
definition select_field :: "SimpleAttributeOperand \<Rightarrow> Event \<Rightarrow> Variant" where
  "select_field sattr event =
     (if length (BrowsePath sattr) = 0 then GetValueAttr event (sao_Attribute sattr)
      else if BrowsePath sattr ! 0 = QualifiedName ''EventID'' 0 then VByteString (EventId event)
      else if BrowsePath sattr ! 0 = QualifiedName ''EventType'' 0 then VNodeID (EventType event)
      else if BrowsePath sattr ! 0 = QualifiedName ''SourceNode'' 0 then VNodeID (SourceNode event)
      else if BrowsePath sattr ! 0 = QualifiedName ''SourceName'' 0 then VString (SourceName event)
      else if BrowsePath sattr ! 0 = QualifiedName ''Message'' 0 then VString (ev_Message event)
      else if BrowsePath sattr ! 0 = QualifiedName ''Severity'' 0 then VUInt16 (Severity event)
      else if BrowsePath sattr ! 0 = QualifiedName ''LocalTime'' 0 then VDateTime (LocalTime event)
      else if BrowsePath sattr ! 0 = QualifiedName ''ReceiveTime'' 0 then VDateTime (ReceiveTime event)
      else if BrowsePath sattr ! 0 = QualifiedName ''Time'' 0 then VDateTime (Time event)
      else GetValuePath event (BrowsePath sattr))"

definition GetEventFields :: "EventFilter \<Rightarrow> Event \<Rightarrow> Variant list" where
  "GetEventFields efilter event =
     foldl (\<lambda>fields sattr. fields @ [select_field sattr event]) [] (SelectClauses efilter)"

definition EnqueueEvent ::
  "IntegerID \<Rightarrow> Event \<Rightarrow> InternalSubscription \<Rightarrow> bool \<times> InternalSubscription" where
  "EnqueueEvent monitoreditemid event s =
     (case map_find monitoreditemid (MonitoredItemsMap s) of
        None \<Rightarrow> (False, s)
      | Some mii \<Rightarrow>
          (True,
           s\<lparr>EventTriggered := EventTriggered s @
               [\<lparr> efl_ClientHandle = ClientHandle mii,
                  EventFields = GetEventFields (flt_Event (res_Filter (Parameters mii))) event \<rparr>]\<rparr>))"

definition TriggerEvent :: "NodeID \<Rightarrow> Event \<Rightarrow> InternalSubscription \<Rightarrow> InternalSubscription" where
  "TriggerEvent node event s =
     (case map_find node (MonitoredEvents s) of
        None \<Rightarrow> s
      | Some monitoreditemid \<Rightarrow> snd (EnqueueEvent monitoreditemid event s))"

subsection \<open>The publish-request credit of the service\<close>

text \<open>
  \<open>PopPublishRequest\<close> belongs to the service but is called by the timer handler of the
  subscription; it only touches \<^verbatim>\<open>PublishRequestQueues\<close>.
\<close>

definition PopPublishRequest ::
  "NodeID \<Rightarrow> (NodeID, u32) stdmap \<Rightarrow> bool \<times> (NodeID, u32) stdmap" where
  "PopPublishRequest node queues =
     (case map_find node queues of
        None \<Rightarrow> (False, queues)
      | Some credit \<Rightarrow>
          if credit = 0 then (False, queues)
          else (True, map_set node (credit - 1) queues))"

subsection \<open>The timer handler\<close>

text \<open>
  \<open>PublishResults\<close> is the handler of the timer. It returns the argument of the call of
  \<^verbatim>\<open>Callback\<close>, if the call is made, the credit map and the subscription. The branch
  that returns early leaves no handler pending; the other one ends with \<^verbatim>\<open>async_wait\<close>.
\<close>
definition PublishResults ::
  "bool \<Rightarrow> DateTime \<Rightarrow> (NodeID, u32) stdmap \<Rightarrow> InternalSubscription
     \<Rightarrow> PublishResult option \<times> (NodeID, u32) stdmap \<times> InternalSubscription" where
  "PublishResults error now queues s =
     (if error \<or> HasExpired s
      then (None, queues, s\<lparr>TimerStopped := True, TimerPending := False\<rparr>)
      else
        (case HasPublishResult s of (has, s1) \<Rightarrow>
           (case (if has then PopPublishRequest (CurrentSession s1) queues else (False, queues)) of
              (credit, queues') \<Rightarrow>
                (case (if has \<and> credit
                       then (case PopPublishResult now s1 of (results, s2) \<Rightarrow>
                               (if length results > 0 \<and> Callback s2 then Some (results ! 0) else None,
                                s2))
                       else (None, s1)) of
                   (called, s3) \<Rightarrow>
                     (called, queues', s3\<lparr>TimerStopped := False, TimerPending := True\<rparr>)))))"

text \<open>
  \<open>Stop\<close> cancels the timer. Cancelling changes no member: the pending handler is still
  invoked, normally with an error code.
\<close>
definition Stop :: "InternalSubscription \<Rightarrow> InternalSubscription" where
  "Stop s = (if \<not> TimerStopped s then s else s)"

section \<open>SubscriptionServiceInternal\<close>

text \<open>
  The members of the service. The subscriptions are owned through shared pointers; the map
  holds their states, and an operation on a subscription stores the new state back.
\<close>

record SubscriptionServiceInternal =
  SubscriptionsMap :: "(u32, InternalSubscription) stdmap"
  PublishRequestQueues :: "(NodeID, u32) stdmap"
  LastSubscriptionId :: u32

definition SubscriptionServiceInternal_new :: SubscriptionServiceInternal where
  "SubscriptionServiceInternal_new =
     \<lparr> SubscriptionsMap = [], PublishRequestQueues = [], LastSubscriptionId = 0 \<rparr>"

record RequestHeader =
  SessionAuthenticationToken :: NodeID

record PublishRequest =
  Header :: RequestHeader
  SubscriptionAcknowledgements :: "SubscriptionAcknowledgement list"

record MonitoredItemsParameters =
  mip_SubscriptionId :: u32
  ItemsToCreate :: "MonitoredItemRequest list"

record DeleteMonitoredItemsParameters =
  dmp_SubscriptionId :: u32
  MonitoredItemIds :: "IntegerID list"

subsection \<open>Batch operations on monitored items\<close>

text \<open>
  The conversion \<^verbatim>\<open>(int)v.size()\<close>: the size is reduced to 32 bits and read as a
  two's complement value.
\<close>
definition int_of_size :: "nat \<Rightarrow> int" where
  "int_of_size n = sint (word_of_nat n :: 32 word)"

text \<open>
  The loop \<^verbatim>\<open>for (int j = 0; j < (int)v.size(); j++) data.push_back(res)\<close> of the two
  unknown-subscription branches, entered with \<open>j\<close> and the bound \<open>n\<close>.
\<close>
function error_loop :: "int \<Rightarrow> int \<Rightarrow> 'r \<Rightarrow> 'r list \<Rightarrow> 'r list" where
  "error_loop j n res data =
     (if j < n then error_loop (j + 1) n res (data @ [res]) else data)"
  by pat_completeness auto
termination
  by (relation "measure (\<lambda>(j, n, res, data). nat (n - j))") auto

declare error_loop.simps [simp del]

text \<open>
  The loop over the requests of a known subscription. A request whose creation runs into
  the out-of-bounds read ends the whole call.
\<close>
fun create_loop ::
  "MonitoredItemRequest list
     \<Rightarrow> CreateMonitoredItemsResult list \<times> 'a AddressSpace \<times> InternalSubscription
     \<Rightarrow> (CreateMonitoredItemsResult list \<times> 'a AddressSpace \<times> InternalSubscription) option" where
  "create_loop [] acc = Some acc"
| "create_loop (req # reqs) (data, a, sub) =
     (case CreateMonitoredItem req a sub of
        None \<Rightarrow> None
      | Some (result, a', sub') \<Rightarrow> create_loop reqs (data @ [result], a', sub'))"

definition CreateMonitoredItems ::
  "MonitoredItemsParameters \<Rightarrow> 'a AddressSpace \<Rightarrow> SubscriptionServiceInternal
     \<Rightarrow> (CreateMonitoredItemsResult list \<times> 'a AddressSpace \<times> SubscriptionServiceInternal) option" where
  "CreateMonitoredItems params a svc =
     (case map_find (mip_SubscriptionId params) (SubscriptionsMap svc) of
        None \<Rightarrow>
          Some (error_loop 0 (int_of_size (length (ItemsToCreate params)))
                  (CreateMonitoredItemsResult_new\<lparr>Status := BadSubscriptionIdInvalid\<rparr>) [],
                a, svc)
      | Some sub \<Rightarrow>
          (case create_loop (ItemsToCreate params) ([], a, sub) of
             None \<Rightarrow> None
           | Some (data, a', sub') \<Rightarrow>
               Some (data, a',
                     svc\<lparr>SubscriptionsMap :=
                           map_set (mip_SubscriptionId params) sub' (SubscriptionsMap svc)\<rparr>)))"

definition DeleteMonitoredItems ::
  "DeleteMonitoredItemsParameters \<Rightarrow> 'a AddressSpace \<Rightarrow> SubscriptionServiceInternal
     \<Rightarrow> StatusCode list \<times> 'a AddressSpace \<times> SubscriptionServiceInternal" where
  "DeleteMonitoredItems params a svc =
     (case map_find (dmp_SubscriptionId params) (SubscriptionsMap svc) of
        None \<Rightarrow>
          (error_loop 0 (int_of_size (length (MonitoredItemIds params))) BadSubscriptionIdInvalid [],
           a, svc)
      | Some sub \<Rightarrow>
          (case DeleteMonitoredItemsIds (MonitoredItemIds params) a sub of
             (results, a', sub') \<Rightarrow>
               (results, a',
                svc\<lparr>SubscriptionsMap :=
                      map_set (dmp_SubscriptionId params) sub' (SubscriptionsMap svc)\<rparr>)))"

subsection \<open>Publish requests\<close>

text \<open>
  \<^verbatim>\<open>PublishRequestQueues[token]\<close>: \<^verbatim>\<open>operator[]\<close> of \<^verbatim>\<open>std::map\<close> inserts a
  value-initialised entry, 0, for a key that is absent.
\<close>
definition map_index :: "'k::linorder \<Rightarrow> ('k, u32) stdmap \<Rightarrow> u32 \<times> ('k, u32) stdmap" where
  "map_index k m =
     (case map_find k m of None \<Rightarrow> (0, map_set k 0 m) | Some v \<Rightarrow> (v, m))"

definition route_ack ::
  "(u32, InternalSubscription) stdmap \<Rightarrow> SubscriptionAcknowledgement
     \<Rightarrow> (u32, InternalSubscription) stdmap" where
  "route_ack subs ack =
     (case map_find (ack_SubscriptionId ack) subs of
        None \<Rightarrow> subs
      | Some sub \<Rightarrow> map_set (ack_SubscriptionId ack) (NewAcknowlegment ack sub) subs)"

definition Publish :: "PublishRequest \<Rightarrow> SubscriptionServiceInternal \<Rightarrow> SubscriptionServiceInternal" where
  "Publish request svc =
     (let token = SessionAuthenticationToken (Header request);
          (credit, queues1) = map_index token (PublishRequestQueues svc);
          queues2 = (if credit < 100 then map_set token (credit + 1) queues1 else queues1)
      in svc\<lparr>PublishRequestQueues := queues2,
              SubscriptionsMap := foldl route_ack (SubscriptionsMap svc)
                                    (SubscriptionAcknowledgements request)\<rparr>)"

text \<open>\<open>PopPublishRequest\<close> as a member of the service.\<close>
definition Service_PopPublishRequest ::
  "NodeID \<Rightarrow> SubscriptionServiceInternal \<Rightarrow> bool \<times> SubscriptionServiceInternal" where
  "Service_PopPublishRequest node svc =
     (case PopPublishRequest node (PublishRequestQueues svc) of
        (ok, queues) \<Rightarrow> (ok, svc\<lparr>PublishRequestQueues := queues\<rparr>))"

subsection \<open>Events and their identifiers\<close>

text \<open>
  The process-wide generator behind \<^verbatim>\<open>rand()\<close> is the sequence of the values it is
  going to return; a call takes the first and leaves the rest.
\<close>
type_synonym prng = "nat \<Rightarrow> nat"

definition rand :: "prng \<Rightarrow> nat \<times> prng" where
  "rand g = (g 0, \<lambda>i. g (Suc i))"

text \<open>
  Modelled from the spec: \<^verbatim>\<open>ByteString\<close> is declared in a header that is not among the
  sources; the spec calls the identifier a byte-string and an 8-byte \<open>EventId\<close>, so
  \<^verbatim>\<open>Data\<close> holds bytes and \<^verbatim>\<open>push_back(val)\<close> narrows the 32-bit \<open>val\<close> to one.
  The loop runs while \<open>i < 8\<close>; \<open>n\<close> counts the rounds that remain.
\<close>
fun GenerateEventId_loop :: "nat \<Rightarrow> prng \<Rightarrow> ByteString \<Rightarrow> ByteString \<times> prng" where
  "GenerateEventId_loop 0 g str = (str, g)"
| "GenerateEventId_loop (Suc n) g str =
     (case rand g of (r, g') \<Rightarrow>
        let val = (word_of_nat (r mod 2147483647) :: 32 word)
        in GenerateEventId_loop n g' (str\<lparr>bs_Data := bs_Data str @ [ucast val]\<rparr>))"

definition GenerateEventId :: "prng \<Rightarrow> ByteString \<times> prng" where
  "GenerateEventId g = GenerateEventId_loop 8 g \<lparr> bs_Data = [] \<rparr>"

definition Service_TriggerEvent ::
  "NodeID \<Rightarrow> Event \<Rightarrow> prng \<Rightarrow> SubscriptionServiceInternal \<Rightarrow> prng \<times> SubscriptionServiceInternal" where
  "Service_TriggerEvent node event0 g svc =
     (case (if bs_Data (EventId event0) = []
            then (case GenerateEventId g of (eid, g') \<Rightarrow> (event0\<lparr>EventId := eid\<rparr>, g'))
            else (event0, g)) of
        (event, g') \<Rightarrow>
          (g', svc\<lparr>SubscriptionsMap :=
                    map (\<lambda>sub. (fst sub, TriggerEvent node event (snd sub))) (SubscriptionsMap svc)\<rparr>))"

section \<open>A subscription over time\<close>

text \<open>
  What can happen to one subscription, each with what the surroundings contribute: the
  timer handler runs (with its error code, the clock and the credit map of the service at
  that moment) only if a handler is pending; the service forwards a client request; the
  address space reports a data change; an event is triggered. \<open>sub_step\<close> gives the calls
  of \<^verbatim>\<open>Callback\<close> the operation makes and the next state, or \<open>None\<close> where the
  operation runs into the out-of-bounds read.
\<close>

datatype 'a sub_op =
    Op_TimerHandler bool DateTime "(NodeID, u32) stdmap"
  | Op_CreateMonitoredItem MonitoredItemRequest "'a AddressSpace"
  | Op_DeleteMonitoredItemsIds "IntegerID list" "'a AddressSpace"
  | Op_DataChangeCallback IntegerID DataValue
  | Op_TriggerEvent NodeID Event
  | Op_NewAcknowlegment SubscriptionAcknowledgement
  | Op_Stop

fun sub_step ::
  "'a sub_op \<Rightarrow> InternalSubscription \<Rightarrow> (PublishResult list \<times> InternalSubscription) option" where
  "sub_step (Op_TimerHandler error now queues) s =
     (if TimerPending s
      then (case PublishResults error now queues s of
              (called, queues', s') \<Rightarrow>
                Some ((case called of None \<Rightarrow> [] | Some r \<Rightarrow> [r]), s'))
      else Some ([], s))"
| "sub_step (Op_CreateMonitoredItem request a) s =
     (case CreateMonitoredItem request a s of
        None \<Rightarrow> None
      | Some (result, a', s') \<Rightarrow> Some ([], s'))"
| "sub_step (Op_DeleteMonitoredItemsIds ids a) s =
     (case DeleteMonitoredItemsIds ids a s of (results, a', s') \<Rightarrow> Some ([], s'))"
| "sub_step (Op_DataChangeCallback m_id val) s = Some ([], DataChangeCallback m_id val s)"
| "sub_step (Op_TriggerEvent node event) s = Some ([], TriggerEvent node event s)"
| "sub_step (Op_NewAcknowlegment ack) s = Some ([], NewAcknowlegment ack s)"
| "sub_step Op_Stop s = Some ([], Stop s)"

text \<open>
  The calls of \<^verbatim>\<open>Callback\<close> made along a sequence of operations, up to its end or to
  the first operation that runs into the out-of-bounds read; and the state the sequence ends in.
\<close>
fun emissions :: "'a sub_op list \<Rightarrow> InternalSubscription \<Rightarrow> PublishResult list" where
  "emissions [] s = []"
| "emissions (x # xs) s =
     (case sub_step x s of
        None \<Rightarrow> []
      | Some (called, s') \<Rightarrow> called @ emissions xs s')"

fun run :: "'a sub_op list \<Rightarrow> InternalSubscription \<Rightarrow> InternalSubscription option" where
  "run [] s = Some s"
| "run (x # xs) s =
     (case sub_step x s of
        None \<Rightarrow> None
      | Some (called, s') \<Rightarrow> run xs s')"

section \<open>Notions used to state the properties\<close>

text \<open>
  The result \<open>PopPublishResult\<close> builds in a state, written out field by field.
\<close>
definition popped :: "DateTime \<Rightarrow> InternalSubscription \<Rightarrow> PublishResult" where
  "popped now s =
     \<lparr> SubscriptionID = ID (Data s),
       Message = \<lparr> PublishTime = now, SequenceID = NotificationSequence s,
                   msg_Data = (if MonitoredItemsTriggered s \<noteq> []
                               then [DataChangeNotification (MonitoredItemsTriggered s)] else []) @
                              (if EventTriggered s \<noteq> []
                               then [EventNotificationList (EventTriggered s)] else []) \<rparr>,
       Statuses = (if MonitoredItemsTriggered s \<noteq> [] then [Good] else []) @
                  (if EventTriggered s \<noteq> [] then [Good] else []),
       MoreNotifications = False,
       AvailableSequenceNumber = map (\<lambda>res. SequenceID (Message res)) (NotAcknowledgedResults s) \<rparr>"

text \<open>The members that only the timer handler writes.\<close>
definition publishing_state ::
  "InternalSubscription \<Rightarrow>
     SubscriptionData \<times> NodeID \<times> bool \<times> u32 \<times> u32 \<times> bool \<times> u32 \<times> bool \<times> bool" where
  "publishing_state s =
     (Data s, CurrentSession s, Callback s, NotificationSequence s, KeepAliveCount s, Startup s,
      LifeTimeCount s, TimerStopped s, TimerPending s)"

text \<open>A subscription whose handler took the early return: stopped, and no handler pending.\<close>
definition stopped :: "InternalSubscription \<Rightarrow> bool" where
  "stopped s = (TimerStopped s \<and> \<not> TimerPending s)"

text \<open>The credit of a session: the entry of the map, 0 for a session that has none.\<close>
definition credit_of :: "NodeID \<Rightarrow> (NodeID, u32) stdmap \<Rightarrow> u32" where
  "credit_of token queues = (case map_find token queues of None \<Rightarrow> 0 | Some credit \<Rightarrow> credit)"

text \<open>Sequences of the two operations that touch the credit map.\<close>
datatype credit_op = Op_Publish PublishRequest | Op_PopPublishRequest NodeID

fun service_step :: "credit_op \<Rightarrow> SubscriptionServiceInternal \<Rightarrow> SubscriptionServiceInternal" where
  "service_step (Op_Publish request) svc = Publish request svc"
| "service_step (Op_PopPublishRequest node) svc = snd (Service_PopPublishRequest node svc)"

definition service_run ::
  "credit_op list \<Rightarrow> SubscriptionServiceInternal \<Rightarrow> SubscriptionServiceInternal" where
  "service_run ops svc = foldl (\<lambda>svc x. service_step x svc) svc ops"

subsection \<open>Concrete inputs\<close>

definition data0 :: SubscriptionData where
  "data0 = \<lparr> ID = 1, RevisedPublishingInterval = 100, RevisedLifetimeCount = 1,
             RevizedMaxKeepAliveCount = 0 \<rparr>"

definition sub0 :: InternalSubscription where
  "sub0 = InternalSubscription_new data0 7 True"

text \<open>The timer fires without error while the session holds one credit.\<close>
definition tick0 :: "nat sub_op" where
  "tick0 = Op_TimerHandler False 0 [(7, 1)]"

text \<open>Between two keep-alive results of \<open>sub0\<close>: nothing queued, the counter at 0.\<close>
definition idle0 :: "InternalSubscription \<Rightarrow> bool" where
  "idle0 s = (\<not> Startup s \<and> MonitoredItemsTriggered s = [] \<and> EventTriggered s = [] \<and>
              KeepAliveCount s = 0 \<and> RevizedMaxKeepAliveCount (Data s) = 0 \<and> LifeTimeCount s = 1 \<and>
              TimerPending s \<and> Callback s \<and> CurrentSession s = 7)"

text \<open>
  Three address spaces: one that hands out handles 1, 2, ... and reads 42 for every
  attribute asked; one that refuses every callback; one whose reads return nothing.
\<close>
definition as_ok :: "nat AddressSpace" where
  "as_ok = \<lparr> as_state = 0,
             as_add = (\<lambda>st node attr cb. (word_of_nat (Suc st), Suc st)),
             as_delete = (\<lambda>st handle. st),
             as_read = (\<lambda>st params. map (\<lambda>attrval. 42) (AttributesToRead params)) \<rparr>"

definition as_refusing :: "nat AddressSpace" where
  "as_refusing = as_ok\<lparr>as_add := (\<lambda>st node attr cb. (0, st))\<rparr>"

definition as_silent :: "nat AddressSpace" where
  "as_silent = as_ok\<lparr>as_read := (\<lambda>st params. [])\<rparr>"

definition request0 :: MonitoredItemRequest where
  "request0 = \<lparr> ItemToMonitor = \<lparr> Node = 5, Attribute = VALUE \<rparr>,
                req_Mode = Reporting,
                req_Parameters = \<lparr> mp_ClientHandle = 9, QueueSize = 1,
                                   mp_Filter = \<lparr> flt_Event = \<lparr> SelectClauses = [] \<rparr> \<rparr> \<rparr> \<rparr>"

definition request7 :: PublishRequest where
  "request7 = \<lparr> Header = \<lparr> SessionAuthenticationToken = 7 \<rparr>,
                SubscriptionAcknowledgements = [] \<rparr>"

text \<open>
  An event item on node 5 that selects the \<open>EventID\<close> field, the subscription \<open>sub0\<close>
  after creating it, and a service with two such subscriptions.
\<close>
definition event_request0 :: MonitoredItemRequest where
  "event_request0 =
     \<lparr> ItemToMonitor = \<lparr> Node = 5, Attribute = EVENT_NOTIFIER \<rparr>,
       req_Mode = Reporting,
       req_Parameters =
         \<lparr> mp_ClientHandle = 9, QueueSize = 1,
           mp_Filter = \<lparr> flt_Event = \<lparr> SelectClauses =
             [\<lparr> sao_Attribute = VALUE, BrowsePath = [QualifiedName ''EventID'' 0] \<rparr>] \<rparr> \<rparr> \<rparr> \<rparr>"

definition event_sub0 :: InternalSubscription where
  "event_sub0 =
     (case CreateMonitoredItem event_request0 as_ok sub0 of
        None \<Rightarrow> sub0
      | Some (result, a, s) \<Rightarrow> s)"

definition service2 :: SubscriptionServiceInternal where
  "service2 = \<lparr> SubscriptionsMap = [(1, event_sub0), (2, event_sub0)],
                PublishRequestQueues = [], LastSubscriptionId = 2 \<rparr>"

text \<open>An event without identifier, and a generator whose next values are 1, 2, 3, ...\<close>
definition event_no_id :: Event where
  "event_no_id = \<lparr> EventId = \<lparr> bs_Data = [] \<rparr>, EventType = 3, SourceNode = 5,
                   SourceName = ''pump'', ev_Message = ''started'', Severity = 1, LocalTime = 0,
                   ReceiveTime = 0, Time = 0,
                   GetValueAttr = (\<lambda>attr. VNull), GetValuePath = (\<lambda>path. VNull) \<rparr>"

definition prng0 :: prng where
  "prng0 = (\<lambda>i. Suc i)"

section \<open>Auxiliary facts\<close>

subsection \<open>The loops as list functions\<close>

lemma remove_if_filter: "remove_if p xs = filter (\<lambda>x. \<not> p x) xs"
  by (induction xs) auto

lemma foldl_copy: "foldl (\<lambda>acc x. acc @ [x]) acc xs = acc @ xs"
  by (induction xs arbitrary: acc) auto

lemma foldl_available:
  "foldl (\<lambda>r res. r\<lparr>AvailableSequenceNumber := AvailableSequenceNumber r @ [SequenceID (Message res)]\<rparr>) r xs
   = r\<lparr>AvailableSequenceNumber := AvailableSequenceNumber r @ map (\<lambda>res. SequenceID (Message res)) xs\<rparr>"
  by (induction xs arbitrary: r) auto

lemma PopPublishResult_eq:
  "PopPublishResult now s =
     ([popped now s],
      s\<lparr>MonitoredItemsTriggered := [], EventTriggered := [], KeepAliveCount := 0, Startup := False,
        NotificationSequence := NotificationSequence s + 1,
        NotAcknowledgedResults := NotAcknowledgedResults s @ [popped now s]\<rparr>)"
  by (cases "MonitoredItemsTriggered s = []"; cases "EventTriggered s = []")
     (simp_all add: PopPublishResult_def popped_def Let_def GetNotificationData_def
        foldl_available foldl_copy push_Data_def PublishResult_new_def)

subsection \<open>What the operations other than the timer handler leave alone\<close>

lemma delete_one_publishing_state:
  "publishing_state (snd (snd (delete_one handle (results, a, s)))) = publishing_state s"
  by (simp add: delete_one_def publishing_state_def Let_def split: option.splits)

lemma DeleteMonitoredItemsIds_publishing_state_aux:
  "publishing_state (snd (snd (foldl (\<lambda>acc handle. delete_one handle acc) (results, a, s) ids)))
     = publishing_state s"
proof (induction ids arbitrary: results a s)
  case Nil
  show ?case by simp
next
  case (Cons h ids)
  obtain r1 a1 s1 where st: "delete_one h (results, a, s) = (r1, a1, s1)"
    by (cases "delete_one h (results, a, s)") auto
  have "publishing_state s1 = publishing_state s"
    using delete_one_publishing_state [of h results a s] st by simp
  then show ?case using Cons.IH [of r1 a1 s1] st by simp
qed

lemma DeleteMonitoredItemsIds_publishing_state:
  "publishing_state (snd (snd (DeleteMonitoredItemsIds ids a s))) = publishing_state s"
  by (simp add: DeleteMonitoredItemsIds_def DeleteMonitoredItemsIds_publishing_state_aux)

lemma CreateMonitoredItem_publishing_state:
  "CreateMonitoredItem request a s = Some (result, a', s') \<Longrightarrow>
     publishing_state s' = publishing_state s"
  by (auto simp: CreateMonitoredItem_def TriggerDataChangeEvent_def publishing_state_def Let_def
        split: if_splits prod.splits option.splits list.splits)

lemma DataChangeCallback_publishing_state:
  "publishing_state (DataChangeCallback m_id val s) = publishing_state s"
  by (simp add: DataChangeCallback_def publishing_state_def split: option.splits)

lemma TriggerEvent_publishing_state:
  "publishing_state (TriggerEvent node event s) = publishing_state s"
  by (simp add: TriggerEvent_def EnqueueEvent_def publishing_state_def split: option.splits)

lemma NewAcknowlegment_publishing_state:
  "publishing_state (NewAcknowlegment ack s) = publishing_state s"
  by (simp add: NewAcknowlegment_def publishing_state_def)

subsection \<open>The timer handler, path by path\<close>

lemma PublishResults_stop:
  "error \<or> HasExpired s \<Longrightarrow>
     PublishResults error now queues s = (None, queues, s\<lparr>TimerStopped := True, TimerPending := False\<rparr>)"
  by (simp add: PublishResults_def)

lemma PublishResults_nothing:
  "\<not> error \<Longrightarrow> \<not> HasExpired s \<Longrightarrow> \<not> fst (HasPublishResult s) \<Longrightarrow>
     PublishResults error now queues s =
       (None, queues, s\<lparr>KeepAliveCount := KeepAliveCount s + 1, TimerStopped := False, TimerPending := True\<rparr>)"
  by (auto simp: PublishResults_def HasPublishResult_def split: if_splits)

lemma PublishResults_starved:
  "\<not> error \<Longrightarrow> \<not> HasExpired s \<Longrightarrow> fst (HasPublishResult s) \<Longrightarrow>
   \<not> fst (PopPublishRequest (CurrentSession s) queues) \<Longrightarrow>
     PublishResults error now queues s =
       (None, queues, s\<lparr>TimerStopped := False, TimerPending := True\<rparr>)"
  by (auto simp: PublishResults_def HasPublishResult_def PopPublishRequest_def
        split: if_splits option.splits)

lemma PublishResults_emit:
  "\<not> error \<Longrightarrow> \<not> HasExpired s \<Longrightarrow> fst (HasPublishResult s) \<Longrightarrow>
   fst (PopPublishRequest (CurrentSession s) queues) \<Longrightarrow>
     PublishResults error now queues s =
       ((if Callback s then Some (popped now s) else None),
        snd (PopPublishRequest (CurrentSession s) queues),
        s\<lparr>MonitoredItemsTriggered := [], EventTriggered := [], KeepAliveCount := 0, Startup := False,
          NotificationSequence := NotificationSequence s + 1,
          NotAcknowledgedResults := NotAcknowledgedResults s @ [popped now s],
          TimerStopped := False, TimerPending := True\<rparr>)"
  by (auto simp: PublishResults_def HasPublishResult_def PopPublishResult_eq
        split: if_splits prod.splits)

lemma publishing_state_fields:
  "publishing_state s' = publishing_state s \<Longrightarrow>
     Callback s' = Callback s \<and> NotificationSequence s' = NotificationSequence s \<and>
     TimerStopped s' = TimerStopped s \<and> TimerPending s' = TimerPending s"
  by (simp add: publishing_state_def)

lemma PublishResults_cases:
  obtains
    (stop) "PublishResults error now queues s =
              (None, queues, s\<lparr>TimerStopped := True, TimerPending := False\<rparr>)"
  | (quiet) s' where "PublishResults error now queues s = (None, queues, s')"
      "Callback s' = Callback s" "NotificationSequence s' = NotificationSequence s"
  | (emit) q' s' where
      "PublishResults error now queues s = ((if Callback s then Some (popped now s) else None), q', s')"
      "Callback s' = Callback s" "NotificationSequence s' = NotificationSequence s + 1"
proof (cases "error \<or> HasExpired s")
  case True
  then show ?thesis using PublishResults_stop [of error s now queues] stop by simp
next
  case ne: False
  show ?thesis
  proof (cases "fst (HasPublishResult s)")
    case False
    then show ?thesis using ne PublishResults_nothing [of error s now queues] quiet by simp
  next
    case has: True
    show ?thesis
    proof (cases "fst (PopPublishRequest (CurrentSession s) queues)")
      case False
      then show ?thesis using ne has PublishResults_starved [of error s queues now] quiet by simp
    next
      case True
      then show ?thesis using ne has PublishResults_emit [of error s queues now] emit by simp
    qed
  qed
qed

subsection \<open>Sequence numbers along a sequence of operations\<close>

lemma popped_SequenceID: "SequenceID (Message (popped now s)) = NotificationSequence s"
  by (simp add: popped_def)

lemma sub_step_sequence:
  assumes "sub_step x s = Some (called, s')"
  shows "Callback s' = Callback s \<and>
         ((called = [] \<and> (Callback s \<longrightarrow> NotificationSequence s' = NotificationSequence s)) \<or>
          (Callback s \<and> (\<exists>r. called = [r] \<and> SequenceID (Message r) = NotificationSequence s) \<and>
           NotificationSequence s' = NotificationSequence s + 1))"
proof (cases x)
  case (Op_TimerHandler error now queues)
  show ?thesis
  proof (cases "TimerPending s")
    case False
    then show ?thesis using assms Op_TimerHandler by simp
  next
    case True
    show ?thesis
    proof (cases rule: PublishResults_cases [of error now queues s])
      case stop
      then show ?thesis using assms Op_TimerHandler True by auto
    next
      case (quiet s1)
      then show ?thesis using assms Op_TimerHandler True by auto
    next
      case (emit q1 s1)
      then show ?thesis using assms Op_TimerHandler True by (auto simp: popped_SequenceID)
    qed
  qed
next
  case (Op_CreateMonitoredItem request a)
  then show ?thesis
    using assms CreateMonitoredItem_publishing_state [THEN publishing_state_fields, of request a s]
    by (auto split: option.splits)
next
  case (Op_DeleteMonitoredItemsIds ids a)
  then show ?thesis
    using assms DeleteMonitoredItemsIds_publishing_state [THEN publishing_state_fields, of ids a s]
    by (auto split: prod.splits)
next
  case (Op_DataChangeCallback m_id val)
  then show ?thesis
    using assms DataChangeCallback_publishing_state [THEN publishing_state_fields, of m_id val s]
    by auto
next
  case (Op_TriggerEvent node event)
  then show ?thesis
    using assms TriggerEvent_publishing_state [THEN publishing_state_fields, of node event s]
    by auto
next
  case (Op_NewAcknowlegment ack)
  then show ?thesis
    using assms NewAcknowlegment_publishing_state [THEN publishing_state_fields, of ack s]
    by auto
next
  case Op_Stop
  then show ?thesis using assms by (auto simp: Stop_def)
qed

lemma emissions_no_callback: "\<not> Callback s \<Longrightarrow> emissions ops s = []"
proof (induction ops arbitrary: s)
  case Nil
  show ?case by simp
next
  case (Cons x xs)
  show ?case
  proof (cases "sub_step x s")
    case None
    then show ?thesis by simp
  next
    case (Some p)
    obtain called s' where p: "p = (called, s')" by (cases p)
    from sub_step_sequence [of x s called s'] Some p Cons.prems
    have "called = []" "\<not> Callback s'" by auto
    then show ?thesis using Some p Cons.IH [of s'] by simp
  qed
qed

lemma map_upt_shift: "map f [0..<Suc n] = f 0 # map (\<lambda>i. f (Suc i)) [0..<n]"
  by (simp only: upt_conv_Cons [of 0 "Suc n"] map_Suc_upt [symmetric] list.map map_map comp_def)

lemma emissions_sequence:
  "map (\<lambda>r. SequenceID (Message r)) (emissions ops s) =
     map (\<lambda>i. NotificationSequence s + word_of_nat i) [0..<length (emissions ops s)]"
proof (cases "Callback s")
  case False
  then show ?thesis by (simp add: emissions_no_callback)
next
  case True
  then show ?thesis
  proof (induction ops arbitrary: s)
    case Nil
    show ?case by simp
  next
    case (Cons x xs)
    show ?case
    proof (cases "sub_step x s")
      case None
      then show ?thesis by simp
    next
      case (Some p)
      obtain called s' where p: "p = (called, s')" by (cases p)
      from sub_step_sequence [of x s called s'] Some p Cons.prems
      consider (quiet) "called = []" "NotificationSequence s' = NotificationSequence s" "Callback s'"
        | (emit) r where "called = [r]" "SequenceID (Message r) = NotificationSequence s"
            "NotificationSequence s' = NotificationSequence s + 1" "Callback s'"
        by auto
      then show ?thesis
      proof cases
        case quiet
        then show ?thesis using Some p Cons.IH [of s'] by simp
      next
        case emit
        have "map (\<lambda>r. SequenceID (Message r)) (emissions (x # xs) s) =
              NotificationSequence s # map (\<lambda>i. NotificationSequence s' + word_of_nat i)
                 [0..<length (emissions xs s')]"
          using Some p emit Cons.IH [of s'] by simp
        also have "\<dots> = map (\<lambda>i. NotificationSequence s + word_of_nat i)
                            [0..<Suc (length (emissions xs s'))]"
          by (simp only: map_upt_shift emit(3)) (simp add: add.assoc)
        finally show ?thesis using Some p emit by simp
      qed
    qed
  qed
qed

subsection \<open>A subscription that sends a keep-alive result on every second tick\<close>

lemma idle0_round:
  assumes "idle0 s"
  shows "\<exists>r s'. idle0 s' \<and> (\<forall>rest. emissions (tick0 # tick0 # rest) s = r # emissions rest s')"
proof -
  let ?s1 = "s\<lparr>KeepAliveCount := 1, TimerStopped := False, TimerPending := True\<rparr>"
  have t1: "sub_step tick0 s = Some ([], ?s1)"
    using assms
    by (simp add: tick0_def idle0_def PublishResults_def HasExpired_def HasPublishResult_def)
  have ne: "\<not> HasExpired ?s1" using assms by (simp add: idle0_def HasExpired_def)
  have has: "fst (HasPublishResult ?s1)" using assms by (simp add: idle0_def HasPublishResult_def)
  have cr: "fst (PopPublishRequest (CurrentSession ?s1) [(7, 1)])"
    using assms by (simp add: idle0_def PopPublishRequest_def map_find_def)
  obtain q' s2 where pr: "PublishResults False 0 [(7, 1)] ?s1 = (Some (popped 0 ?s1), q', s2)"
    and s2: "s2 = ?s1\<lparr>MonitoredItemsTriggered := [], EventTriggered := [], KeepAliveCount := 0,
          Startup := False, NotificationSequence := NotificationSequence ?s1 + 1,
          NotAcknowledgedResults := NotAcknowledgedResults ?s1 @ [popped 0 ?s1],
          TimerStopped := False, TimerPending := True\<rparr>"
    using PublishResults_emit [OF _ ne has cr, of False 0] assms by (simp add: idle0_def)
  have t2: "sub_step tick0 ?s1 = Some ([popped 0 ?s1], s2)"
    using pr by (simp add: tick0_def)
  have "idle0 s2" using assms s2 by (simp add: idle0_def)
  moreover have "\<forall>rest. emissions (tick0 # tick0 # rest) s = popped 0 ?s1 # emissions rest s2"
    using t1 t2 by simp
  ultimately show ?thesis by blast
qed

lemma idle0_rounds:
  "idle0 s \<Longrightarrow> length (emissions (concat (replicate n [tick0, tick0])) s) = n"
proof (induction n arbitrary: s)
  case 0
  show ?case by simp
next
  case (Suc n)
  from idle0_round [OF Suc.prems] obtain r s' where
    s': "idle0 s'" and
    em: "\<And>rest. emissions (tick0 # tick0 # rest) s = r # emissions rest s'" by blast
  show ?case using em Suc.IH [OF s'] by simp
qed

lemma first_tick0:
  "\<exists>r s'. idle0 s' \<and>
     (\<forall>rest. emissions (tick0 # rest) (InternalSubscription_new data0 7 True) = r # emissions rest s')"
proof -
  let ?s = "InternalSubscription_new data0 7 True"
  have ne: "\<not> HasExpired ?s" by (simp add: InternalSubscription_new_def HasExpired_def)
  have has: "fst (HasPublishResult ?s)" by (simp add: InternalSubscription_new_def HasPublishResult_def)
  have cr: "fst (PopPublishRequest (CurrentSession ?s) [(7, 1)])"
    by (simp add: InternalSubscription_new_def PopPublishRequest_def map_find_def)
  obtain q' s2 where pr: "PublishResults False 0 [(7, 1)] ?s = (Some (popped 0 ?s), q', s2)"
    and s2: "s2 = ?s\<lparr>MonitoredItemsTriggered := [], EventTriggered := [], KeepAliveCount := 0,
          Startup := False, NotificationSequence := NotificationSequence ?s + 1,
          NotAcknowledgedResults := NotAcknowledgedResults ?s @ [popped 0 ?s],
          TimerStopped := False, TimerPending := True\<rparr>"
    using PublishResults_emit [OF _ ne has cr, of False 0] by (simp add: InternalSubscription_new_def)
  have t: "sub_step tick0 ?s = Some ([popped 0 ?s], s2)"
    using pr by (simp add: tick0_def InternalSubscription_new_def)
  have "idle0 s2" using s2 by (simp add: idle0_def InternalSubscription_new_def data0_def)
  moreover have "\<forall>rest. emissions (tick0 # rest) ?s = popped 0 ?s # emissions rest s2"
    using t by simp
  ultimately show ?thesis by blast
qed

subsection \<open>Stopped subscriptions stay stopped\<close>

lemma sub_step_timer:
  assumes "sub_step x s = Some (called, s')" "TimerStopped s \<longrightarrow> \<not> TimerPending s"
  shows "TimerStopped s' \<longrightarrow> \<not> TimerPending s'"
proof (cases x)
  case (Op_TimerHandler error now queues)
  show ?thesis
  proof (cases "TimerPending s")
    case False
    then show ?thesis using assms Op_TimerHandler by simp
  next
    case True
    then show ?thesis using assms Op_TimerHandler
      by (auto simp: PublishResults_def split: if_splits prod.splits)
  qed
next
  case (Op_CreateMonitoredItem request a)
  then show ?thesis
    using assms CreateMonitoredItem_publishing_state [THEN publishing_state_fields, of request a s]
    by (auto split: option.splits)
next
  case (Op_DeleteMonitoredItemsIds ids a)
  then show ?thesis
    using assms DeleteMonitoredItemsIds_publishing_state [THEN publishing_state_fields, of ids a s]
    by (auto split: prod.splits)
next
  case (Op_DataChangeCallback m_id val)
  then show ?thesis
    using assms DataChangeCallback_publishing_state [THEN publishing_state_fields, of m_id val s]
    by auto
next
  case (Op_TriggerEvent node event)
  then show ?thesis
    using assms TriggerEvent_publishing_state [THEN publishing_state_fields, of node event s]
    by auto
next
  case (Op_NewAcknowlegment ack)
  then show ?thesis
    using assms NewAcknowlegment_publishing_state [THEN publishing_state_fields, of ack s]
    by auto
next
  case Op_Stop
  then show ?thesis using assms by (auto simp: Stop_def)
qed

lemma sub_step_stopped:
  assumes "sub_step x s = Some (called, s')" "stopped s"
  shows "called = [] \<and> stopped s'"
proof (cases x)
  case (Op_TimerHandler error now queues)
  then show ?thesis using assms by (simp add: stopped_def)
next
  case (Op_CreateMonitoredItem request a)
  then show ?thesis
    using assms CreateMonitoredItem_publishing_state [THEN publishing_state_fields, of request a s]
    by (auto simp: stopped_def split: option.splits)
next
  case (Op_DeleteMonitoredItemsIds ids a)
  then show ?thesis
    using assms DeleteMonitoredItemsIds_publishing_state [THEN publishing_state_fields, of ids a s]
    by (auto simp: stopped_def split: prod.splits)
next
  case (Op_DataChangeCallback m_id val)
  then show ?thesis
    using assms DataChangeCallback_publishing_state [THEN publishing_state_fields, of m_id val s]
    by (auto simp: stopped_def)
next
  case (Op_TriggerEvent node event)
  then show ?thesis
    using assms TriggerEvent_publishing_state [THEN publishing_state_fields, of node event s]
    by (auto simp: stopped_def)
next
  case (Op_NewAcknowlegment ack)
  then show ?thesis
    using assms NewAcknowlegment_publishing_state [THEN publishing_state_fields, of ack s]
    by (auto simp: stopped_def)
next
  case Op_Stop
  then show ?thesis using assms by (auto simp: Stop_def)
qed

lemma run_timer:
  "run ops s = Some s' \<Longrightarrow> (TimerStopped s \<longrightarrow> \<not> TimerPending s) \<Longrightarrow>
     (TimerStopped s' \<longrightarrow> \<not> TimerPending s')"
proof (induction ops arbitrary: s)
  case Nil
  then show ?case by simp
next
  case (Cons x xs)
  from Cons.prems(1) obtain called s1 where st: "sub_step x s = Some (called, s1)"
    and rest: "run xs s1 = Some s'"
    by (auto split: option.splits)
  show ?case using Cons.IH [OF rest] sub_step_timer [OF st Cons.prems(2)] by blast
qed

lemma emissions_stopped: "stopped s \<Longrightarrow> emissions ops s = []"
proof (induction ops arbitrary: s)
  case Nil
  show ?case by simp
next
  case (Cons x xs)
  show ?case
  proof (cases "sub_step x s")
    case None
    then show ?thesis by simp
  next
    case (Some p)
    obtain called s' where p: "p = (called, s')" by (cases p)
    from sub_step_stopped [of x s called s'] Some p Cons.prems
    have "called = []" "stopped s'" by auto
    then show ?thesis using Some p Cons.IH [of s'] by simp
  qed
qed

lemma run_stopped: "stopped s \<Longrightarrow> run ops s = Some s' \<Longrightarrow> stopped s'"
proof (induction ops arbitrary: s)
  case Nil
  then show ?case by simp
next
  case (Cons x xs)
  from Cons.prems(2) obtain called s1 where st: "sub_step x s = Some (called, s1)"
    and rest: "run xs s1 = Some s'"
    by (auto split: option.splits)
  show ?case using Cons.IH [OF _ rest] sub_step_stopped [OF st Cons.prems(1)] by blast
qed

subsection \<open>Counting from one, and the wrap-around of the counter\<close>

lemma ids_from_one:
  "map (\<lambda>i. (1 :: u32) + word_of_nat i) [0..<n] = map word_of_nat [1..<Suc n]"
proof -
  have "[1..<Suc n] = map Suc [0..<n]" by (simp only: map_Suc_upt One_nat_def)
  then show ?thesis by (simp add: comp_def)
qed

lemma unat_ids:
  assumes "n < 2 ^ 32"
  shows "map (\<lambda>i. unat (word_of_nat i :: u32)) [1..<Suc n] = [1..<Suc n]"
proof (rule map_idI)
  fix i assume "i \<in> set [1..<Suc n]"
  then have "i \<le> n" by auto
  then have "i < 2 ^ 32" using assms by simp
  then show "unat (word_of_nat i :: u32) = i" by (simp add: unat_of_nat)
qed

lemma wrap_after_2_32_results:
  assumes "2 ^ 32 \<le> n"
  shows "\<not> sorted_wrt (<) (map (\<lambda>r. SequenceID (Message r))
           (emissions (tick0 # concat (replicate n [tick0, tick0]))
              (InternalSubscription_new data0 7 True)))"
proof
  let ?out = "emissions (tick0 # concat (replicate n [tick0, tick0]))
                (InternalSubscription_new data0 7 True)"
  let ?ids = "map (\<lambda>r. SequenceID (Message r)) ?out"
  assume sorted: "sorted_wrt (<) ?ids"
  from first_tick0 obtain r s' where s': "idle0 s'"
    and em: "\<And>rest. emissions (tick0 # rest) (InternalSubscription_new data0 7 True) = r # emissions rest s'"
    by blast
  have len: "length ?out = Suc n" using em idle0_rounds [OF s', of n] by simp
  have ids: "?ids = map (\<lambda>i. 1 + word_of_nat i) [0..<Suc n]"
    using emissions_sequence [of "tick0 # concat (replicate n [tick0, tick0])"
        "InternalSubscription_new data0 7 True"] len
    by (simp add: InternalSubscription_new_def)
  have i: "(2 ^ 32 - 2 :: nat) < 2 ^ 32 - 1" by simp
  have j: "(2 ^ 32 - 1 :: nat) < length ?ids" using assms len by simp
  have "?ids ! (2 ^ 32 - 2) < ?ids ! (2 ^ 32 - 1)"
    using sorted_wrt_nth_less [OF sorted i j] .
  moreover have "?ids ! (2 ^ 32 - 2) = (1 + word_of_nat (2 ^ 32 - 2) :: 32 word)"
    using assms by (simp only: ids) (simp del: upt_Suc)
  moreover have "?ids ! (2 ^ 32 - 1) = (1 + word_of_nat (2 ^ 32 - 1) :: 32 word)"
    using assms by (simp only: ids) (simp del: upt_Suc)
  ultimately show False by simp
qed

subsection \<open>The credit map\<close>

lemma map_find_map_set: "map_find k' (map_set k v m) = (if k' = k then Some v else map_find k' m)"
  by (induction m) (auto simp: map_find_def)

lemma credit_of_map_set: "credit_of t (map_set k v m) = (if t = k then v else credit_of t m)"
  by (simp add: credit_of_def map_find_map_set)

lemma Publish_credit:
  "credit_of t (PublishRequestQueues (Publish request svc)) =
     (if t = SessionAuthenticationToken (Header request) \<and> credit_of t (PublishRequestQueues svc) < 100
      then credit_of t (PublishRequestQueues svc) + 1
      else credit_of t (PublishRequestQueues svc))"
  by (auto simp: Publish_def Let_def map_index_def credit_of_def map_find_map_set
        split: option.splits prod.splits)

lemma PopPublishRequest_credit:
  "fst (PopPublishRequest node queues) = (0 < credit_of node queues) \<and>
   credit_of t (snd (PopPublishRequest node queues)) =
     (if t = node \<and> 0 < credit_of node queues then credit_of node queues - 1 else credit_of t queues)"
  by (auto simp: PopPublishRequest_def credit_of_def map_find_map_set word_greater_zero_iff
        split: option.splits)

lemma word_inc_le_100: "(c :: u32) < 100 \<Longrightarrow> c + 1 \<le> 100"
  by unat_arith

lemma word_dec_le_100: "(c :: u32) \<le> 100 \<Longrightarrow> c - 1 \<le> 100 \<or> c = 0"
  by unat_arith

lemma service_step_bound:
  assumes "\<forall>t. credit_of t (PublishRequestQueues svc) \<le> 100"
  shows "\<forall>t. credit_of t (PublishRequestQueues (service_step x svc)) \<le> 100"
proof (cases x)
  case (Op_Publish request)
  then show ?thesis using assms by (auto simp: Publish_credit word_inc_le_100)
next
  case (Op_PopPublishRequest node)
  have "credit_of node (PublishRequestQueues svc) - 1 \<le> 100" if "0 < credit_of node (PublishRequestQueues svc)"
    using word_dec_le_100 [of "credit_of node (PublishRequestQueues svc)"] assms that by auto
  then show ?thesis using assms Op_PopPublishRequest PopPublishRequest_credit [of node "PublishRequestQueues svc"]
    by (auto simp: Service_PopPublishRequest_def split: prod.splits)
qed

lemma service_run_bound:
  "\<forall>t. credit_of t (PublishRequestQueues svc) \<le> 100 \<Longrightarrow>
   \<forall>t. credit_of t (PublishRequestQueues (service_run ops svc)) \<le> 100"
  unfolding service_run_def
proof (induction ops arbitrary: svc)
  case Nil
  then show ?case by simp
next
  case (Cons x xs)
  show ?case using Cons.IH [OF service_step_bound [OF Cons.prems, of x]] by simp
qed

subsection \<open>The loops of the batch operations\<close>

lemma error_loop_eq: "error_loop j n res data = data @ replicate (nat (n - j)) res"
proof (induction j n res data rule: error_loop.induct)
  case (1 j n res data)
  show ?case
  proof (cases "j < n")
    case True
    have "nat (n - j) = Suc (nat (n - (j + 1)))" using True by simp
    then show ?thesis using True 1 by (subst error_loop.simps) (simp add: replicate_app_Cons_same)
  next
    case False
    then show ?thesis by (subst error_loop.simps) simp
  qed
qed

lemma int_of_size_small: "n < 2 ^ 31 \<Longrightarrow> int_of_size n = int n"
  unfolding int_of_size_def
  by (simp add: signed_of_nat signed_take_bit_int_eq_self)

lemma int_of_size_2_31: "int_of_size (2 ^ 31) = - (2 ^ 31)"
  by (simp add: int_of_size_def)

lemma create_loop_length:
  "create_loop reqs (data, a, sub) = Some (data', a', sub') \<Longrightarrow>
     length data' = length data + length reqs"
proof (induction reqs arbitrary: data a sub)
  case Nil
  then show ?case by simp
next
  case (Cons req reqs)
  from Cons.prems obtain result a1 sub1 where
    "CreateMonitoredItem req a sub = Some (result, a1, sub1)"
    "create_loop reqs (data @ [result], a1, sub1) = Some (data', a', sub')"
    by (auto split: option.splits)
  then show ?case using Cons.IH [of "data @ [result]" a1 sub1] by simp
qed

lemma TriggerDataChangeEvent_returns:
  "\<forall>st params. as_read a st params \<noteq> [] \<Longrightarrow>
     \<exists>s'. TriggerDataChangeEvent monitoreditems attrval a s = Some s'"
  by (simp add: TriggerDataChangeEvent_def Read_def Let_def split: list.splits)

lemma CreateMonitoredItem_returns:
  assumes "\<forall>st params. as_read a st params \<noteq> []"
  shows "\<exists>result a' s'. CreateMonitoredItem request a s = Some (result, a', s') \<and>
           as_read a' = as_read a"
proof (cases "Attribute (ItemToMonitor request) = EVENT_NOTIFIER")
  case True
  then show ?thesis
    using assms
    by (simp add: CreateMonitoredItem_def TriggerDataChangeEvent_def Read_def Let_def
          split: list.splits)
next
  case False
  obtain handle st where add: "as_add a (as_state a) (Node (ItemToMonitor request))
      (Attribute (ItemToMonitor request)) (LastMonitoredItemID s + 1) = (handle, st)"
    by (cases "as_add a (as_state a) (Node (ItemToMonitor request))
      (Attribute (ItemToMonitor request)) (LastMonitoredItemID s + 1)") auto
  have rd: "\<forall>st' params. as_read (a\<lparr>as_state := st\<rparr>) st' params \<noteq> []" using assms by simp
  show ?thesis
  proof (cases "handle = 0")
    case True
    then show ?thesis using False add
      by (simp add: CreateMonitoredItem_def AddDataChangeCallback_def Let_def)
  next
    case nz: False
    then show ?thesis using False add assms
      by (simp add: CreateMonitoredItem_def AddDataChangeCallback_def TriggerDataChangeEvent_def
            Read_def Let_def split: list.splits)
  qed
qed

lemma create_loop_returns:
  "\<forall>st params. as_read a st params \<noteq> [] \<Longrightarrow> \<exists>r. create_loop reqs (data, a, sub) = Some r"
proof (induction reqs arbitrary: data a sub)
  case Nil
  show ?case by simp
next
  case (Cons req reqs)
  from CreateMonitoredItem_returns [OF Cons.prems, of req sub] obtain result a1 sub1 where
    c: "CreateMonitoredItem req a sub = Some (result, a1, sub1)" and r: "as_read a1 = as_read a"
    by blast
  have "\<forall>st params. as_read a1 st params \<noteq> []" using Cons.prems r by simp
  from Cons.IH [OF this, of "data @ [result]" sub1] c show ?case by simp
qed

lemma delete_one_length:
  "length (fst (delete_one handle (results, a, s))) = Suc (length results)"
  by (simp add: delete_one_def Let_def split: option.splits)

lemma DeleteMonitoredItemsIds_length_aux:
  "length (fst (foldl (\<lambda>acc handle. delete_one handle acc) (results, a, s) ids)) =
     length results + length ids"
proof (induction ids arbitrary: results a s)
  case Nil
  show ?case by simp
next
  case (Cons h ids)
  obtain r1 a1 s1 where st: "delete_one h (results, a, s) = (r1, a1, s1)"
    by (cases "delete_one h (results, a, s)") auto
  have "length r1 = Suc (length results)" using delete_one_length [of h results a s] st by simp
  then show ?case using Cons.IH [of r1 a1 s1] st by simp
qed

lemma DeleteMonitoredItemsIds_length:
  "length (fst (DeleteMonitoredItemsIds ids a s)) = length ids"
  by (simp add: DeleteMonitoredItemsIds_def DeleteMonitoredItemsIds_length_aux)

lemma batch_results_below_2_31:
  "(map_find (mip_SubscriptionId params) (SubscriptionsMap svc) = None \<and>
    length (ItemsToCreate params) < 2 ^ 31 \<longrightarrow>
      CreateMonitoredItems params a svc =
        Some (replicate (length (ItemsToCreate params))
                (CreateMonitoredItemsResult_new\<lparr>Status := BadSubscriptionIdInvalid\<rparr>), a, svc)) \<and>
   (map_find (dmp_SubscriptionId dparams) (SubscriptionsMap svc) = None \<and>
    length (MonitoredItemIds dparams) < 2 ^ 31 \<longrightarrow>
      DeleteMonitoredItems dparams a svc =
        (replicate (length (MonitoredItemIds dparams)) BadSubscriptionIdInvalid, a, svc)) \<and>
   (CreateMonitoredItems params a svc = Some (data, a', svc') \<and>
    map_find (mip_SubscriptionId params) (SubscriptionsMap svc) \<noteq> None \<longrightarrow>
      length data = length (ItemsToCreate params)) \<and>
   (map_find (dmp_SubscriptionId dparams) (SubscriptionsMap svc) \<noteq> None \<longrightarrow>
      length (fst (DeleteMonitoredItems dparams a svc)) = length (MonitoredItemIds dparams))"
proof (intro conjI)
  show "map_find (mip_SubscriptionId params) (SubscriptionsMap svc) = None \<and>
    length (ItemsToCreate params) < 2 ^ 31 \<longrightarrow>
      CreateMonitoredItems params a svc =
        Some (replicate (length (ItemsToCreate params))
                (CreateMonitoredItemsResult_new\<lparr>Status := BadSubscriptionIdInvalid\<rparr>), a, svc)"
    by (simp add: CreateMonitoredItems_def error_loop_eq int_of_size_small)
next
  show "map_find (dmp_SubscriptionId dparams) (SubscriptionsMap svc) = None \<and>
    length (MonitoredItemIds dparams) < 2 ^ 31 \<longrightarrow>
      DeleteMonitoredItems dparams a svc =
        (replicate (length (MonitoredItemIds dparams)) BadSubscriptionIdInvalid, a, svc)"
    by (simp add: DeleteMonitoredItems_def error_loop_eq int_of_size_small)
next
  show "CreateMonitoredItems params a svc = Some (data, a', svc') \<and>
    map_find (mip_SubscriptionId params) (SubscriptionsMap svc) \<noteq> None \<longrightarrow>
      length data = length (ItemsToCreate params)"
  proof
    assume h: "CreateMonitoredItems params a svc = Some (data, a', svc') \<and>
      map_find (mip_SubscriptionId params) (SubscriptionsMap svc) \<noteq> None"
    then obtain sub where sub: "map_find (mip_SubscriptionId params) (SubscriptionsMap svc) = Some sub"
      by auto
    with h obtain sub' where "create_loop (ItemsToCreate params) ([], a, sub) = Some (data, a', sub')"
      by (auto simp: CreateMonitoredItems_def split: option.splits)
    from create_loop_length [OF this] show "length data = length (ItemsToCreate params)" by simp
  qed
next
  show "map_find (dmp_SubscriptionId dparams) (SubscriptionsMap svc) \<noteq> None \<longrightarrow>
      length (fst (DeleteMonitoredItems dparams a svc)) = length (MonitoredItemIds dparams)"
  proof
    assume "map_find (dmp_SubscriptionId dparams) (SubscriptionsMap svc) \<noteq> None"
    then obtain sub where sub: "map_find (dmp_SubscriptionId dparams) (SubscriptionsMap svc) = Some sub"
      by auto
    have "fst (DeleteMonitoredItems dparams a svc) =
            fst (DeleteMonitoredItemsIds (MonitoredItemIds dparams) a sub)"
      using sub by (simp add: DeleteMonitoredItems_def split: prod.splits)
    then show "length (fst (DeleteMonitoredItems dparams a svc)) = length (MonitoredItemIds dparams)"
      by (simp add: DeleteMonitoredItemsIds_length)
  qed
qed

subsection \<open>Event identifiers and event delivery\<close>

lemma GenerateEventId_loop_eq:
  "GenerateEventId_loop n g str =
     (str\<lparr>bs_Data := bs_Data str @
                      map (\<lambda>i. ucast (word_of_nat (g i mod 2147483647) :: 32 word)) [0..<n]\<rparr>,
      \<lambda>i. g (i + n))"
proof (induction n arbitrary: g str)
  case 0
  show ?case by simp
next
  case (Suc n)
  have "map (\<lambda>i. (ucast (word_of_nat (g i mod 2147483647) :: 32 word) :: u8)) [0..<Suc n] =
        ucast (word_of_nat (g 0 mod 2147483647) :: 32 word) #
        map (\<lambda>i. ucast (word_of_nat (g (Suc i) mod 2147483647) :: 32 word)) [0..<n]"
    by (rule map_upt_shift)
  then show ?case using Suc.IH by (simp add: rand_def del: upt_Suc)
qed

lemma GenerateEventId_eq:
  "GenerateEventId g =
     (\<lparr> bs_Data = map (\<lambda>i. ucast (word_of_nat (g i mod 2147483647) :: 32 word)) [0..<8] \<rparr>,
      \<lambda>i. g (i + 8))"
  unfolding GenerateEventId_def GenerateEventId_loop_eq by simp

lemma TriggerEvent_subscribed:
  "map_find node (MonitoredEvents s) = Some item \<Longrightarrow> map_find item (MonitoredItemsMap s) = Some mii \<Longrightarrow>
     TriggerEvent node event s =
       s\<lparr>EventTriggered := EventTriggered s @
           [\<lparr> efl_ClientHandle = ClientHandle mii,
              EventFields = GetEventFields (flt_Event (res_Filter (Parameters mii))) event \<rparr>]\<rparr>"
  by (simp add: TriggerEvent_def EnqueueEvent_def)

lemma select_field_EventID:
  "select_field \<lparr> sao_Attribute = attr, BrowsePath = QualifiedName ''EventID'' 0 # path \<rparr> event =
     VByteString (EventId event)"
  by (simp add: select_field_def)

section \<open>The claims\<close>

subsection \<open>C1: sequence numbers of the results\<close>

text \<open>
  C1 says that the sequence ids of the results a subscription emits are strictly monotonic,
  from 1 and without gaps, over every sequence of operations. The counter is a 32-bit
  value and \<open>PopPublishResult\<close> increments it with wrap-around, so the claim fails once
  \<open>2 ^ 32 - 1\<close> results are out. The subscription \<open>sub0\<close> sends a keep-alive result on
  every second tick when the session has credit; among the ids of its first \<open>2 ^ 32 + 1\<close>
  results, \<open>0xFFFFFFFF\<close> is followed by \<open>0\<close>.
\<close>
theorem sequence_ids_wrap_counterexample:
  "\<not> sorted_wrt (<) (map (\<lambda>r. SequenceID (Message r))
        (emissions (tick0 # concat (replicate (2 ^ 32) [tick0, tick0])) sub0))"
  unfolding sub0_def by (rule wrap_after_2_32_results) simp

text \<open>
  C1, as amended: every call of \<open>PopPublishResult\<close>, with or without notification data,
  gives its result the current \<open>NotificationSequence\<close> and adds one to the counter modulo
  \<open>2 ^ 32\<close>. For a new subscription and every sequence of operations the results emitted
  carry the ids 1, 2, 3, ... modulo \<open>2 ^ 32\<close>, in this order; as long as fewer than
  \<open>2 ^ 32\<close> results are out, the ids are exactly 1, 2, ..., strictly increasing with no gap.
\<close>
theorem sequence_ids_count_from_one:
  "(\<exists>r. fst (PopPublishResult now s) = [r] \<and> SequenceID (Message r) = NotificationSequence s) \<and>
   NotificationSequence (snd (PopPublishResult now s)) = NotificationSequence s + 1 \<and>
   map (\<lambda>r. SequenceID (Message r)) (emissions ops (InternalSubscription_new data token callback)) =
     map word_of_nat
       [1..<Suc (length (emissions ops (InternalSubscription_new data token callback)))] \<and>
   (length (emissions ops (InternalSubscription_new data token callback)) < 2 ^ 32 \<longrightarrow>
      map (\<lambda>r. unat (SequenceID (Message r)))
          (emissions ops (InternalSubscription_new data token callback)) =
        [1..<Suc (length (emissions ops (InternalSubscription_new data token callback)))])"
proof -
  let ?new = "InternalSubscription_new data token callback"
  let ?out = "emissions ops ?new"
  have pop: "\<exists>r. fst (PopPublishResult now s) = [r] \<and> SequenceID (Message r) = NotificationSequence s"
    by (simp add: PopPublishResult_eq popped_SequenceID)
  have inc: "NotificationSequence (snd (PopPublishResult now s)) = NotificationSequence s + 1"
    by (simp add: PopPublishResult_eq)
  have "NotificationSequence ?new = 1" by (simp add: InternalSubscription_new_def)
  then have ids: "map (\<lambda>r. SequenceID (Message r)) ?out = map word_of_nat [1..<Suc (length ?out)]"
    using emissions_sequence [of ops ?new] by (simp only: ids_from_one)
  have small: "map (\<lambda>r. unat (SequenceID (Message r))) ?out = [1..<Suc (length ?out)]"
    if "length ?out < 2 ^ 32"
  proof -
    have "map (\<lambda>r. unat (SequenceID (Message r))) ?out =
          map unat (map (\<lambda>r. SequenceID (Message r)) ?out)" by (simp add: comp_def)
    also have "\<dots> = map (\<lambda>i. unat (word_of_nat i :: u32)) [1..<Suc (length ?out)]"
      by (simp only: ids map_map comp_def)
    also have "\<dots> = [1..<Suc (length ?out)]" using that by (rule unat_ids)
    finally show ?thesis .
  qed
  show ?thesis using pop inc ids small by blast
qed

theorem sequence_ids_count_from_one_witness:
  "length (emissions [tick0, tick0, tick0] sub0) < 2 ^ 32 \<and>
   map (\<lambda>r. unat (SequenceID (Message r))) (emissions [tick0, tick0, tick0] sub0) = [1, 2]"
proof -
  define out where "out = emissions [tick0, tick0, tick0] sub0"
  have len: "length out = 2"
    unfolding out_def
    by (simp add: sub0_def tick0_def data0_def InternalSubscription_new_def PublishResults_def
          HasExpired_def HasPublishResult_def PopPublishRequest_def map_find_def PopPublishResult_eq)
  have "length out < 2 ^ 32 \<longrightarrow>
          map (\<lambda>r. unat (SequenceID (Message r))) out = [1..<Suc (length out)]"
    using sequence_ids_count_from_one [of 0 sub0 "[tick0, tick0, tick0]" data0 7 True]
    unfolding out_def sub0_def by blast
  then have "map (\<lambda>r. unat (SequenceID (Message r))) out = [1..<Suc 2]" using len by simp
  moreover have "[1..<Suc 2] = [1 :: nat, 2]" by code_simp
  ultimately show ?thesis using len unfolding out_def by simp
qed

subsection \<open>C2: publish-request credit\<close>

text \<open>
  C2: over every sequence of \<open>Publish\<close> and \<open>PopPublishRequest\<close> operations on a new
  service, the credit of every session stays between 0 and 100. \<open>Publish\<close> adds 1 to the
  credit of the request's session only when it is below 100, and otherwise leaves it;
  \<open>PopPublishRequest\<close> returns true exactly when the credit of the session is positive
  and then takes 1 from it; for an unknown session or a credit of 0 it returns false and
  leaves the map as it is. No other session's credit changes.
\<close>
theorem publish_credit_stays_within_100:
  "(\<forall>t. credit_of t (PublishRequestQueues (service_run ops SubscriptionServiceInternal_new)) \<le> 100) \<and>
   credit_of t (PublishRequestQueues (Publish request svc)) =
     (if t = SessionAuthenticationToken (Header request) \<and> credit_of t (PublishRequestQueues svc) < 100
      then credit_of t (PublishRequestQueues svc) + 1
      else credit_of t (PublishRequestQueues svc)) \<and>
   fst (PopPublishRequest node queues) = (0 < credit_of node queues) \<and>
   credit_of t (snd (PopPublishRequest node queues)) =
     (if t = node \<and> 0 < credit_of node queues then credit_of node queues - 1 else credit_of t queues) \<and>
   (\<not> fst (PopPublishRequest node queues) \<longrightarrow> snd (PopPublishRequest node queues) = queues) \<and>
   (map_find node queues = None \<longrightarrow> \<not> fst (PopPublishRequest node queues))"
proof -
  have "\<forall>t. credit_of t (PublishRequestQueues SubscriptionServiceInternal_new) \<le> 100"
    by (simp add: SubscriptionServiceInternal_new_def credit_of_def map_find_def)
  then have bound: "\<forall>t. credit_of t (PublishRequestQueues (service_run ops SubscriptionServiceInternal_new)) \<le> 100"
    by (rule service_run_bound)
  have same: "\<not> fst (PopPublishRequest node queues) \<longrightarrow> snd (PopPublishRequest node queues) = queues"
    by (simp add: PopPublishRequest_def split: option.splits)
  have unknown: "map_find node queues = None \<longrightarrow> \<not> fst (PopPublishRequest node queues)"
    by (simp add: PopPublishRequest_def)
  show ?thesis
    using bound Publish_credit [of t request svc] PopPublishRequest_credit [of node queues t] same unknown
    by blast
qed

theorem publish_credit_stays_within_100_witness:
  "credit_of 7 (PublishRequestQueues
      (service_run [Op_Publish request7, Op_Publish request7, Op_PopPublishRequest 7]
         SubscriptionServiceInternal_new)) = 1 \<and>
   credit_of 7 (PublishRequestQueues
      (Publish request7 (SubscriptionServiceInternal_new\<lparr>PublishRequestQueues := [(7, 100)]\<rparr>))) = 100 \<and>
   PopPublishRequest 8 [(7, 100)] = (False, [(7, 100)]) \<and>
   PopPublishRequest 7 [(7, 0)] = (False, [(7, 0)]) \<and>
   PopPublishRequest 7 [(7, 100)] = (True, [(7, 99)])"
proof -
  have run: "credit_of 7 (PublishRequestQueues
      (service_run [Op_Publish request7, Op_Publish request7, Op_PopPublishRequest 7]
         SubscriptionServiceInternal_new)) = 1"
    by (simp add: service_run_def Service_PopPublishRequest_def Publish_def Let_def map_index_def
          PopPublishRequest_def request7_def SubscriptionServiceInternal_new_def credit_of_def
          map_find_def)
  from publish_credit_stays_within_100
         [of "[]" 7 request7 "SubscriptionServiceInternal_new\<lparr>PublishRequestQueues := [(7, 100)]\<rparr>"
             8 "[(7, 100)]"]
  have cap: "credit_of 7 (PublishRequestQueues
      (Publish request7 (SubscriptionServiceInternal_new\<lparr>PublishRequestQueues := [(7, 100)]\<rparr>))) = 100"
    by (simp add: credit_of_def map_find_def request7_def)
  have pops: "PopPublishRequest 8 [(7, 100)] = (False, [(7, 100)]) \<and>
              PopPublishRequest 7 [(7, 0)] = (False, [(7, 0)]) \<and>
              PopPublishRequest 7 [(7, 100)] = (True, [(7, 99)])"
    by (simp add: PopPublishRequest_def map_find_def)
  from run cap pops show ?thesis by blast
qed

subsection \<open>C3: when there is something to publish\<close>

text \<open>
  C3: \<open>HasPublishResult\<close> returns true exactly when \<open>Startup\<close> is set, or one of the two
  queues is non-empty, or \<open>KeepAliveCount\<close> exceeds \<open>RevizedMaxKeepAliveCount\<close>; it
  increments \<open>KeepAliveCount\<close> (a 32-bit counter) if and only if it returns false, and
  changes nothing else; \<open>PopPublishResult\<close> resets \<open>KeepAliveCount\<close> to 0.
\<close>
theorem has_publish_result_and_keep_alive:
  "fst (HasPublishResult s) =
     (Startup s \<or> MonitoredItemsTriggered s \<noteq> [] \<or> EventTriggered s \<noteq> [] \<or>
      RevizedMaxKeepAliveCount (Data s) < KeepAliveCount s) \<and>
   (KeepAliveCount (snd (HasPublishResult s)) = KeepAliveCount s + 1) = (\<not> fst (HasPublishResult s)) \<and>
   snd (HasPublishResult s) =
     (if fst (HasPublishResult s) then s else s\<lparr>KeepAliveCount := KeepAliveCount s + 1\<rparr>) \<and>
   KeepAliveCount (snd (PopPublishResult now s)) = 0"
proof -
  have "KeepAliveCount (snd (PopPublishResult now s)) = 0" by (simp add: PopPublishResult_eq)
  moreover have "KeepAliveCount s + 1 \<noteq> KeepAliveCount s" by simp
  ultimately show ?thesis by (auto simp: HasPublishResult_def)
qed

theorem has_publish_result_and_keep_alive_witness:
  "fst (HasPublishResult sub0) \<and>
   \<not> fst (HasPublishResult (sub0\<lparr>Startup := False\<rparr>)) \<and>
   KeepAliveCount (snd (HasPublishResult (sub0\<lparr>Startup := False\<rparr>))) = 1 \<and>
   KeepAliveCount (snd (PopPublishResult 0 (sub0\<lparr>KeepAliveCount := 1\<rparr>))) = 0"
  using has_publish_result_and_keep_alive [of sub0 0]
    has_publish_result_and_keep_alive [of "sub0\<lparr>Startup := False\<rparr>" 0]
    has_publish_result_and_keep_alive [of "sub0\<lparr>KeepAliveCount := 1\<rparr>" 0]
  by (simp add: sub0_def data0_def InternalSubscription_new_def)

subsection \<open>C4: a tick with pending data and no credit\<close>

text \<open>
  C4 says that on a tick where something is pending (or \<open>Startup\<close> is set) and
  \<open>PopPublishRequest\<close> returns false, \<open>KeepAliveCount\<close> is incremented inside
  \<open>HasPublishResult\<close>. It is not: \<open>HasPublishResult\<close> returns true before it reaches the
  increment. For the new subscription \<open>sub0\<close>, with \<open>Startup\<close> set and an empty credit
  map, the counter is 0 before the tick, after \<open>HasPublishResult\<close> and after the tick.
\<close>
theorem starved_tick_counterexample:
  "Startup sub0 \<and> \<not> fst (PopPublishRequest (CurrentSession sub0) []) \<and>
   KeepAliveCount sub0 = 0 \<and>
   KeepAliveCount (snd (HasPublishResult sub0)) = 0 \<and>
   KeepAliveCount (snd (snd (PublishResults False 0 [] sub0))) = 0"
  by (simp add: sub0_def data0_def InternalSubscription_new_def PublishResults_def HasExpired_def
        HasPublishResult_def PopPublishRequest_def map_find_def)

text \<open>
  C4, as amended: on a tick without error and before expiry where a queue holds pending
  data or \<open>Startup\<close> is set, \<open>HasPublishResult\<close> returns true and leaves the subscription
  as it is; if \<open>PopPublishRequest\<close> then returns false, the tick emits nothing and leaves
  \<open>KeepAliveCount\<close> unchanged (it only re-arms the timer), so a tick starved of credit
  with something pending is not counted against the lifetime.
\<close>
theorem starved_tick_keeps_keep_alive_count:
  assumes "\<not> error" and "\<not> HasExpired s"
    and "Startup s \<or> MonitoredItemsTriggered s \<noteq> [] \<or> EventTriggered s \<noteq> []"
    and "\<not> fst (PopPublishRequest (CurrentSession s) queues)"
  shows "HasPublishResult s = (True, s) \<and>
         PublishResults error now queues s =
           (None, queues, s\<lparr>TimerStopped := False, TimerPending := True\<rparr>) \<and>
         KeepAliveCount (snd (snd (PublishResults error now queues s))) = KeepAliveCount s"
proof -
  have h: "HasPublishResult s = (True, s)" using assms(3) by (auto simp: HasPublishResult_def)
  then have "fst (HasPublishResult s)" by simp
  from PublishResults_starved [OF assms(1) assms(2) this assms(4)] h
  show ?thesis by simp
qed

theorem starved_tick_keeps_keep_alive_count_witness:
  "\<not> HasExpired (sub0\<lparr>KeepAliveCount := 1\<rparr>) \<and>
   Startup (sub0\<lparr>KeepAliveCount := 1\<rparr>) \<and>
   \<not> fst (PopPublishRequest (CurrentSession (sub0\<lparr>KeepAliveCount := 1\<rparr>)) [(7, 0)]) \<and>
   KeepAliveCount (snd (snd (PublishResults False 5 [(7, 0)] (sub0\<lparr>KeepAliveCount := 1\<rparr>)))) = 1"
proof -
  let ?s = "sub0\<lparr>KeepAliveCount := 1\<rparr>"
  have a: "\<not> False" by simp
  have b: "\<not> HasExpired ?s"
    by (simp add: sub0_def data0_def InternalSubscription_new_def HasExpired_def)
  have c: "Startup ?s \<or> MonitoredItemsTriggered ?s \<noteq> [] \<or> EventTriggered ?s \<noteq> []"
    by (simp add: sub0_def InternalSubscription_new_def)
  have d: "\<not> fst (PopPublishRequest (CurrentSession ?s) [(7, 0)])"
    by (simp add: sub0_def InternalSubscription_new_def PopPublishRequest_def map_find_def)
  have "Startup ?s" by (simp add: sub0_def InternalSubscription_new_def)
  moreover have "KeepAliveCount ?s = 1" by simp
  ultimately show ?thesis
    using starved_tick_keeps_keep_alive_count [OF a b c d, of 5] b d by simp
qed

subsection \<open>C5: a stopped subscription\<close>

text \<open>
  C5: a run of the timer handler with an error code, or with \<open>HasExpired\<close> true
  (\<open>KeepAliveCount > LifeTimeCount\<close>), sets \<open>TimerStopped\<close>, emits nothing and returns
  without a new \<^verbatim>\<open>async_wait\<close>. And whenever a subscription, after any sequence of
  operations since its construction, has \<open>TimerStopped\<close> set, no later sequence of
  operations emits anything, and \<open>TimerStopped\<close> stays set.
\<close>
theorem stopped_subscription_never_emits:
  "(error \<or> HasExpired s \<longrightarrow>
      PublishResults error now queues s =
        (None, queues, s\<lparr>TimerStopped := True, TimerPending := False\<rparr>)) \<and>
   (run ops1 (InternalSubscription_new data token callback) = Some s1 \<and> TimerStopped s1 \<longrightarrow>
      emissions ops2 s1 = [] \<and> (\<forall>s2. run ops2 s1 = Some s2 \<longrightarrow> TimerStopped s2))"
proof (rule conjI)
  show "error \<or> HasExpired s \<longrightarrow>
      PublishResults error now queues s =
        (None, queues, s\<lparr>TimerStopped := True, TimerPending := False\<rparr>)"
    using PublishResults_stop [of error s now queues] by blast
next
  show "run ops1 (InternalSubscription_new data token callback) = Some s1 \<and> TimerStopped s1 \<longrightarrow>
      emissions ops2 s1 = [] \<and> (\<forall>s2. run ops2 s1 = Some s2 \<longrightarrow> TimerStopped s2)"
  proof
    assume a: "run ops1 (InternalSubscription_new data token callback) = Some s1 \<and> TimerStopped s1"
    have "TimerStopped s1 \<longrightarrow> \<not> TimerPending s1"
      using run_timer [of ops1 "InternalSubscription_new data token callback" s1] a
      by (simp add: InternalSubscription_new_def)
    then have st: "stopped s1" using a by (simp add: stopped_def)
    show "emissions ops2 s1 = [] \<and> (\<forall>s2. run ops2 s1 = Some s2 \<longrightarrow> TimerStopped s2)"
      using emissions_stopped [OF st] run_stopped [OF st] by (auto simp: stopped_def)
  qed
qed

theorem stopped_subscription_never_emits_witness:
  "PublishResults True 0 [(7, 1)] sub0 =
     (None, [(7, 1)], sub0\<lparr>TimerStopped := True, TimerPending := False\<rparr>) \<and>
   run [tick0, Op_TimerHandler True 3 [(7, 1)]] sub0 =
     Some (snd (snd (PublishResults True 3 [(7, 1)] (snd (snd (PublishResults False 0 [(7, 1)] sub0)))))) \<and>
   TimerStopped (snd (snd (PublishResults True 3 [(7, 1)] (snd (snd (PublishResults False 0 [(7, 1)] sub0)))))) \<and>
   emissions [tick0, tick0, tick0]
     (snd (snd (PublishResults True 3 [(7, 1)] (snd (snd (PublishResults False 0 [(7, 1)] sub0)))))) = []"
proof -
  let ?s1 = "snd (snd (PublishResults True 3 [(7, 1)] (snd (snd (PublishResults False 0 [(7, 1)] sub0)))))"
  have r: "run [tick0, Op_TimerHandler True 3 [(7, 1)] :: nat sub_op] sub0 = Some ?s1"
    by (simp add: sub0_def tick0_def data0_def InternalSubscription_new_def PublishResults_def
          HasExpired_def HasPublishResult_def PopPublishRequest_def map_find_def PopPublishResult_eq
          split: prod.splits)
  have t: "TimerStopped ?s1" by (simp add: PublishResults_def)
  from stopped_subscription_never_emits
         [of True sub0 0 "[(7, 1)]" "[tick0, Op_TimerHandler True 3 [(7, 1)]]" data0 7 True ?s1
             "[tick0, tick0, tick0]"]
       r t
  show ?thesis by (simp add: sub0_def)
qed

subsection \<open>C6: the results not yet acknowledged\<close>

text \<open>
  C6: the result of an emission lists in \<open>AvailableSequenceNumber\<close> exactly the sequence
  ids of the entries of \<open>NotAcknowledgedResults\<close> before the result is appended, in their
  order, and a copy of the result is then appended; \<open>NewAcknowlegment\<close> removes every entry
  whose sequence id equals the acknowledged number and keeps all the others, in their order.
\<close>
theorem available_numbers_and_acknowledgement:
  "(\<exists>r. fst (PopPublishResult now s) = [r] \<and>
        AvailableSequenceNumber r =
          map (\<lambda>res. SequenceID (Message res)) (NotAcknowledgedResults s) \<and>
        NotAcknowledgedResults (snd (PopPublishResult now s)) = NotAcknowledgedResults s @ [r]) \<and>
   NotAcknowledgedResults (NewAcknowlegment ack s) =
     filter (\<lambda>res. SequenceID (Message res) \<noteq> SequenceNumber ack) (NotAcknowledgedResults s)"
proof -
  have "AvailableSequenceNumber (popped now s) =
          map (\<lambda>res. SequenceID (Message res)) (NotAcknowledgedResults s)"
    by (simp add: popped_def)
  then have pop: "\<exists>r. fst (PopPublishResult now s) = [r] \<and>
        AvailableSequenceNumber r =
          map (\<lambda>res. SequenceID (Message res)) (NotAcknowledgedResults s) \<and>
        NotAcknowledgedResults (snd (PopPublishResult now s)) = NotAcknowledgedResults s @ [r]"
    by (simp add: PopPublishResult_eq)
  have "NotAcknowledgedResults (NewAcknowlegment ack s) =
     filter (\<lambda>res. SequenceID (Message res) \<noteq> SequenceNumber ack) (NotAcknowledgedResults s)"
    by (auto simp: NewAcknowlegment_def remove_if_filter intro!: filter_cong)
  with pop show ?thesis by blast
qed

theorem available_numbers_and_acknowledgement_witness:
  "AvailableSequenceNumber (hd (fst (PopPublishResult 2 (snd (PopPublishResult 1 sub0))))) = [1] \<and>
   map (\<lambda>res. SequenceID (Message res))
     (NotAcknowledgedResults (snd (PopPublishResult 2 (snd (PopPublishResult 1 sub0))))) = [1, 2] \<and>
   map (\<lambda>res. SequenceID (Message res))
     (NotAcknowledgedResults
        (NewAcknowlegment \<lparr> ack_SubscriptionId = 1, SequenceNumber = 1 \<rparr>
           (snd (PopPublishResult 2 (snd (PopPublishResult 1 sub0)))))) = [2]"
proof -
  let ?ack = "\<lparr> ack_SubscriptionId = 1, SequenceNumber = 1 \<rparr>"
  let ?s1 = "snd (PopPublishResult 1 sub0)"
  let ?s2 = "snd (PopPublishResult 2 ?s1)"
  have ids1: "map (\<lambda>res. SequenceID (Message res)) (NotAcknowledgedResults ?s1) = [1]"
    by (simp add: PopPublishResult_eq popped_def sub0_def InternalSubscription_new_def)
  have ids2: "map (\<lambda>res. SequenceID (Message res)) (NotAcknowledgedResults ?s2) = [1, 2]"
    by (simp add: PopPublishResult_eq popped_def sub0_def InternalSubscription_new_def)
  from available_numbers_and_acknowledgement [of 2 ?s1 ?ack] ids1
  have av: "AvailableSequenceNumber (hd (fst (PopPublishResult 2 ?s1))) = [1]" by auto
  from available_numbers_and_acknowledgement [of 0 ?s2 ?ack]
  have "NotAcknowledgedResults (NewAcknowlegment ?ack ?s2) =
          filter (\<lambda>res. SequenceID (Message res) \<noteq> SequenceNumber ?ack) (NotAcknowledgedResults ?s2)"
    by blast
  then have "map (\<lambda>res. SequenceID (Message res)) (NotAcknowledgedResults (NewAcknowlegment ?ack ?s2)) = [2]"
    by (simp add: PopPublishResult_eq popped_def sub0_def InternalSubscription_new_def)
  with av ids2 show ?thesis by simp
qed

subsection \<open>C7: a monitored item the address space refuses\<close>

text \<open>
  C7: when \<open>CreateMonitoredItem\<close> registers an item that is not an event item and the
  address space returns the callback handle 0, the call returns a result with status
  \<open>BadNodeAttributesInvalid\<close> and leaves the subscription exactly as it was: the id counter
  is back at its prior value, \<open>MonitoredItemsMap\<close> has no new entry and no data-change
  notification is queued. The result still carries the id that was tried.
\<close>
theorem refused_item_is_rolled_back:
  assumes "Attribute (ItemToMonitor request) \<noteq> EVENT_NOTIFIER"
    and "fst (AddDataChangeCallback (Node (ItemToMonitor request))
                (Attribute (ItemToMonitor request)) (LastMonitoredItemID s + 1) a) = 0"
  shows "\<exists>result a'. CreateMonitoredItem request a s = Some (result, a', s) \<and>
           Status result = BadNodeAttributesInvalid \<and>
           MonitoredItemID result = LastMonitoredItemID s + 1"
proof -
  obtain handle a' where add: "AddDataChangeCallback (Node (ItemToMonitor request))
                (Attribute (ItemToMonitor request)) (LastMonitoredItemID s + 1) a = (handle, a')"
    by (cases "AddDataChangeCallback (Node (ItemToMonitor request))
                (Attribute (ItemToMonitor request)) (LastMonitoredItemID s + 1) a") auto
  then have "handle = 0" using assms(2) by simp
  then show ?thesis using assms(1) add by (simp add: CreateMonitoredItem_def Let_def)
qed

theorem refused_item_is_rolled_back_witness:
  "Attribute (ItemToMonitor request0) \<noteq> EVENT_NOTIFIER \<and>
   fst (AddDataChangeCallback (Node (ItemToMonitor request0)) (Attribute (ItemToMonitor request0))
          (LastMonitoredItemID sub0 + 1) as_refusing) = 0 \<and>
   (\<exists>result a'. CreateMonitoredItem request0 as_refusing sub0 = Some (result, a', sub0) \<and>
        Status result = BadNodeAttributesInvalid \<and> MonitoredItemID result = 1)"
proof -
  have a: "Attribute (ItemToMonitor request0) \<noteq> EVENT_NOTIFIER" by (simp add: request0_def)
  have b: "fst (AddDataChangeCallback (Node (ItemToMonitor request0))
                  (Attribute (ItemToMonitor request0)) (LastMonitoredItemID sub0 + 1) as_refusing) = 0"
    by (simp add: AddDataChangeCallback_def as_refusing_def as_ok_def)
  have "LastMonitoredItemID sub0 + 1 = 1" by (simp add: sub0_def InternalSubscription_new_def)
  with refused_item_is_rolled_back [OF a b] a b show ?thesis by simp
qed

subsection \<open>C8: batch operations on an unknown subscription\<close>

text \<open>
  C8 says that for a subscription id that is not in the registry \<open>CreateMonitoredItems\<close>
  and \<open>DeleteMonitoredItems\<close> return one \<open>BadSubscriptionIdInvalid\<close> per item of the
  request. Both branches are commented "return errors for all items", but their loops run
  while \<^verbatim>\<open>j < (int)size()\<close>: for a request of \<open>2 ^ 31\<close> items the bound is negative,
  the loop body never runs, and both return an empty vector. (For fewer than \<open>2 ^ 31\<close>
  items the claim holds, and for a known subscription the result always has the length of
  the request: \<open>batch_results_below_2_31\<close>.)
\<close>
theorem unknown_subscription_with_2_31_items:
  "CreateMonitoredItems \<lparr> mip_SubscriptionId = 1, ItemsToCreate = replicate (2 ^ 31) request0 \<rparr>
       as_ok SubscriptionServiceInternal_new =
     Some ([], as_ok, SubscriptionServiceInternal_new) \<and>
   DeleteMonitoredItems \<lparr> dmp_SubscriptionId = 1, MonitoredItemIds = replicate (2 ^ 31) 1 \<rparr>
       as_ok SubscriptionServiceInternal_new =
     ([], as_ok, SubscriptionServiceInternal_new)"
proof -
  have none: "map_find 1 (SubscriptionsMap SubscriptionServiceInternal_new) = None"
    by (simp add: SubscriptionServiceInternal_new_def map_find_def)
  have loop: "error_loop 0 (int_of_size (2 ^ 31)) res [] = []" for res :: 'r
    by (simp only: error_loop_eq int_of_size_2_31) simp
  have len: "length (ItemsToCreate
               \<lparr> mip_SubscriptionId = 1, ItemsToCreate = replicate (2 ^ 31) request0 \<rparr>) = 2 ^ 31"
    by (simp only: MonitoredItemsParameters.simps length_replicate)
  have sid: "mip_SubscriptionId
               \<lparr> mip_SubscriptionId = 1, ItemsToCreate = replicate (2 ^ 31) request0 \<rparr> = 1"
    by (simp only: MonitoredItemsParameters.simps)
  have dlen: "length (MonitoredItemIds
               \<lparr> dmp_SubscriptionId = 1, MonitoredItemIds = replicate (2 ^ 31) 1 \<rparr>) = 2 ^ 31"
    by (simp only: DeleteMonitoredItemsParameters.simps length_replicate)
  have dsid: "dmp_SubscriptionId
               \<lparr> dmp_SubscriptionId = 1, MonitoredItemIds = replicate (2 ^ 31) 1 \<rparr> = 1"
    by (simp only: DeleteMonitoredItemsParameters.simps)
  have create: "CreateMonitoredItems
       \<lparr> mip_SubscriptionId = 1, ItemsToCreate = replicate (2 ^ 31) request0 \<rparr>
       as_ok SubscriptionServiceInternal_new =
     Some ([], as_ok, SubscriptionServiceInternal_new)"
    unfolding CreateMonitoredItems_def len sid none loop by (simp only: option.case)
  have delete: "DeleteMonitoredItems
       \<lparr> dmp_SubscriptionId = 1, MonitoredItemIds = replicate (2 ^ 31) 1 \<rparr>
       as_ok SubscriptionServiceInternal_new =
     ([], as_ok, SubscriptionServiceInternal_new)"
    unfolding DeleteMonitoredItems_def dlen dsid none loop by (simp only: option.case)
  from create delete show ?thesis by (rule conjI)
qed

subsection \<open>C9: the generated event identifier\<close>

text \<open>
  C9: when \<open>Service_TriggerEvent\<close> is called with an event whose \<open>EventId\<close> is empty,
  it takes 8 values from the pseudo-random generator, each reduced modulo \<open>2 ^ 31 - 1\<close>
  into a 32-bit value and stored as one element of the byte-string, before it hands the
  event to the subscriptions: every subscription is triggered with the same event, every
  subscription that has an event item on the node (and the item in its map) queues the
  fields projected from that event, and a select clause for \<open>EventID\<close> projects the
  generated 8-byte identifier.
\<close>
theorem generated_event_id_is_shared:
  assumes "bs_Data (EventId ev) = []"
  shows
    "bs_Data (fst (GenerateEventId g)) =
       map (\<lambda>i. ucast (word_of_nat (g i mod 2147483647) :: 32 word)) [0..<8] \<and>
     length (bs_Data (fst (GenerateEventId g))) = 8 \<and>
     SubscriptionsMap (snd (Service_TriggerEvent node ev g svc)) =
       map (\<lambda>sub. (fst sub, TriggerEvent node (ev\<lparr>EventId := fst (GenerateEventId g)\<rparr>) (snd sub)))
         (SubscriptionsMap svc) \<and>
     (\<forall>sub \<in> set (SubscriptionsMap svc). \<forall>item mii.
        map_find node (MonitoredEvents (snd sub)) = Some item \<and>
        map_find item (MonitoredItemsMap (snd sub)) = Some mii \<longrightarrow>
        EventTriggered (TriggerEvent node (ev\<lparr>EventId := fst (GenerateEventId g)\<rparr>) (snd sub)) =
          EventTriggered (snd sub) @
            [\<lparr> efl_ClientHandle = ClientHandle mii,
               EventFields = GetEventFields (flt_Event (res_Filter (Parameters mii)))
                               (ev\<lparr>EventId := fst (GenerateEventId g)\<rparr>) \<rparr>]) \<and>
     (\<forall>attr path.
        select_field \<lparr> sao_Attribute = attr, BrowsePath = QualifiedName ''EventID'' 0 # path \<rparr>
            (ev\<lparr>EventId := fst (GenerateEventId g)\<rparr>) =
          VByteString (fst (GenerateEventId g)))"
proof -
  have bytes: "bs_Data (fst (GenerateEventId g)) =
       map (\<lambda>i. ucast (word_of_nat (g i mod 2147483647) :: 32 word)) [0..<8]"
    by (simp only: GenerateEventId_eq fst_conv ByteString.simps)
  then have len: "length (bs_Data (fst (GenerateEventId g))) = 8"
    by simp
  have fan: "SubscriptionsMap (snd (Service_TriggerEvent node ev g svc)) =
       map (\<lambda>sub. (fst sub, TriggerEvent node (ev\<lparr>EventId := fst (GenerateEventId g)\<rparr>) (snd sub)))
         (SubscriptionsMap svc)"
    using assms by (simp add: Service_TriggerEvent_def split: prod.splits)
  have queue: "\<forall>sub \<in> set (SubscriptionsMap svc). \<forall>item mii.
        map_find node (MonitoredEvents (snd sub)) = Some item \<and>
        map_find item (MonitoredItemsMap (snd sub)) = Some mii \<longrightarrow>
        EventTriggered (TriggerEvent node (ev\<lparr>EventId := fst (GenerateEventId g)\<rparr>) (snd sub)) =
          EventTriggered (snd sub) @
            [\<lparr> efl_ClientHandle = ClientHandle mii,
               EventFields = GetEventFields (flt_Event (res_Filter (Parameters mii)))
                               (ev\<lparr>EventId := fst (GenerateEventId g)\<rparr>) \<rparr>]"
    by (simp add: TriggerEvent_subscribed)
  have sel: "\<forall>attr path.
        select_field \<lparr> sao_Attribute = attr, BrowsePath = QualifiedName ''EventID'' 0 # path \<rparr>
            (ev\<lparr>EventId := fst (GenerateEventId g)\<rparr>) =
          VByteString (fst (GenerateEventId g))"
    by (simp add: select_field_EventID)
  from bytes len fan queue sel show ?thesis by blast
qed

theorem generated_event_id_is_shared_witness:
  "bs_Data (EventId event_no_id) = [] \<and>
   map (\<lambda>sub. EventTriggered (snd sub))
     (SubscriptionsMap (snd (Service_TriggerEvent 5 event_no_id prng0 service2))) =
     [[\<lparr> efl_ClientHandle = 9, EventFields = [VByteString \<lparr> bs_Data = [1, 2, 3, 4, 5, 6, 7, 8] \<rparr>] \<rparr>],
      [\<lparr> efl_ClientHandle = 9, EventFields = [VByteString \<lparr> bs_Data = [1, 2, 3, 4, 5, 6, 7, 8] \<rparr>] \<rparr>]]"
proof -
  have empty: "bs_Data (EventId event_no_id) = []" by (simp add: event_no_id_def)
  note inst = generated_event_id_is_shared [OF empty, of prng0 5 service2]
  have eid: "fst (GenerateEventId prng0) = \<lparr> bs_Data = [1, 2, 3, 4, 5, 6, 7, 8] \<rparr>"
  proof -
    have "bs_Data (fst (GenerateEventId prng0)) = [1, 2, 3, 4, 5, 6, 7, 8]"
      using inst by (simp add: prng0_def upt_rec)
    then show ?thesis by (cases "fst (GenerateEventId prng0)") simp
  qed
  have sub: "event_sub0 =
      sub0\<lparr>LastMonitoredItemID := 1, MonitoredEvents := [(5, 1)],
           MonitoredItemsMap :=
             [(1, \<lparr> Parameters = \<lparr> Status = Good, MonitoredItemID = 1, RevisedSamplingInterval = 100,
                                   RevizedQueueSize = 1,
                                   res_Filter = mp_Filter (req_Parameters event_request0) \<rparr>,
                    Mode = Reporting, ClientHandle = 9, CallbackHandle = 0 \<rparr>)],
           MonitoredItemsTriggered := [\<lparr> mi_ClientHandle = 9, mi_Value = 42 \<rparr>]\<rparr>"
    by (simp add: event_sub0_def CreateMonitoredItem_def event_request0_def as_ok_def sub0_def
          data0_def InternalSubscription_new_def TriggerDataChangeEvent_def Read_def Let_def
          CreateMonitoredItemsResult_new_def)
  have "SubscriptionsMap (snd (Service_TriggerEvent 5 event_no_id prng0 service2)) =
       map (\<lambda>sub. (fst sub, TriggerEvent 5 (event_no_id\<lparr>EventId := fst (GenerateEventId prng0)\<rparr>) (snd sub)))
         (SubscriptionsMap service2)"
    using inst by blast
  then show ?thesis
    using empty
    by (simp add: eid service2_def sub TriggerEvent_def EnqueueEvent_def map_find_def
          GetEventFields_def select_field_def event_request0_def sub0_def InternalSubscription_new_def)
qed

subsection \<open>C10: the unchecked read of the initial value\<close>

text \<open>
  C10: \<open>TriggerDataChangeEvent\<close> takes the first element of the vector that
  \<^verbatim>\<open>AddressSpace.Read\<close> returns for the one-element attribute list, with no check, so it
  runs into the out-of-bounds read exactly when that vector is empty. \<open>CreateMonitoredItem\<close>
  reaches it on every path but the refused callback; it returns a result exactly when the
  callback was refused or the read returns at least one value.
\<close>
theorem initial_read_needs_a_value:
  "(TriggerDataChangeEvent monitoreditems attrval a s = None) =
     (Read \<lparr> AttributesToRead = [attrval] \<rparr> a = []) \<and>
   (CreateMonitoredItem request a s = None) =
     (if Attribute (ItemToMonitor request) = EVENT_NOTIFIER
      then Read \<lparr> AttributesToRead = [ItemToMonitor request] \<rparr> a = []
      else fst (AddDataChangeCallback (Node (ItemToMonitor request))
                  (Attribute (ItemToMonitor request)) (LastMonitoredItemID s + 1) a) \<noteq> 0 \<and>
           Read \<lparr> AttributesToRead = [ItemToMonitor request] \<rparr>
             (snd (AddDataChangeCallback (Node (ItemToMonitor request))
                     (Attribute (ItemToMonitor request)) (LastMonitoredItemID s + 1) a)) = [])"
proof (rule conjI)
  show "(TriggerDataChangeEvent monitoreditems attrval a s = None) =
     (Read \<lparr> AttributesToRead = [attrval] \<rparr> a = [])"
    by (simp add: TriggerDataChangeEvent_def Let_def split: list.splits)
next
  show "(CreateMonitoredItem request a s = None) =
     (if Attribute (ItemToMonitor request) = EVENT_NOTIFIER
      then Read \<lparr> AttributesToRead = [ItemToMonitor request] \<rparr> a = []
      else fst (AddDataChangeCallback (Node (ItemToMonitor request))
                  (Attribute (ItemToMonitor request)) (LastMonitoredItemID s + 1) a) \<noteq> 0 \<and>
           Read \<lparr> AttributesToRead = [ItemToMonitor request] \<rparr>
             (snd (AddDataChangeCallback (Node (ItemToMonitor request))
                     (Attribute (ItemToMonitor request)) (LastMonitoredItemID s + 1) a)) = [])"
    by (auto simp: CreateMonitoredItem_def TriggerDataChangeEvent_def Let_def
          split: prod.splits list.splits option.splits)
qed

theorem initial_read_needs_a_value_witness:
  "Read \<lparr> AttributesToRead = [ItemToMonitor request0] \<rparr> as_silent = [] \<and>
   CreateMonitoredItem request0 as_silent sub0 = None \<and>
   Read \<lparr> AttributesToRead = [ItemToMonitor request0] \<rparr> as_ok = [42] \<and>
   CreateMonitoredItem request0 as_ok sub0 \<noteq> None"
  using initial_read_needs_a_value [of undefined "ItemToMonitor request0" as_silent sub0 request0]
        initial_read_needs_a_value [of undefined "ItemToMonitor request0" as_ok sub0 request0]
  by (simp add: Read_def AddDataChangeCallback_def as_silent_def as_ok_def request0_def)

end
